theory Spec2Isabelle
  imports Main "HOL-Library.Sublist" "HOL-Library.AList" "HOL-Library.Word"
begin

section \<open>Text\<close>

text \<open>
  A Python \<open>str\<close> is modelled as a \<open>string\<close>, one \<open>char\<close> per code point, so the model
  covers text whose code points are below 256. On that range \<open>str.lower\<close> acts
  character by character: it moves \<open>A\<close>..\<open>Z\<close> and the Latin-1 capitals \<open>0xC0\<close>..\<open>0xDE\<close>
  (without the multiplication sign \<open>0xD7\<close>) up by 32 and leaves every other character.
\<close>

definition lower_char :: "char \<Rightarrow> char" where
  "lower_char c = (let n = (of_char c :: nat) in
     if (65 \<le> n \<and> n \<le> 90) \<or> (192 \<le> n \<and> n \<le> 222 \<and> n \<noteq> 215)
     then char_of (n + 32) else c)"

definition lower :: "string \<Rightarrow> string" where
  "lower s = map lower_char s"

text \<open>The characters \<open>str.strip()\<close> removes: Python's whitespace below code point 256.\<close>

definition is_space :: "char \<Rightarrow> bool" where
  "is_space c = (let n = (of_char c :: nat) in
     (9 \<le> n \<and> n \<le> 13) \<or> (28 \<le> n \<and> n \<le> 32) \<or> n = 133 \<or> n = 160)"

text \<open>\<open>s.strip(chars)\<close>: the characters of the class are removed at both ends.\<close>

definition strip_chars :: "(char \<Rightarrow> bool) \<Rightarrow> string \<Rightarrow> string" where
  "strip_chars P s = rev (dropWhile P (rev (dropWhile P s)))"

definition strip :: "string \<Rightarrow> string" where
  "strip s = strip_chars is_space s"

text \<open>\<open>s.split(sep)\<close> for a one-character separator: never the empty list.\<close>

fun split_on :: "char \<Rightarrow> string \<Rightarrow> string list" where
  "split_on sep [] = [[]]"
| "split_on sep (c # cs) =
     (if c = sep then [] # split_on sep cs
      else (case split_on sep cs of
              [] \<Rightarrow> [[c]]
            | p # ps \<Rightarrow> (c # p) # ps))"

text \<open>\<open>sep.join(parts)\<close>.\<close>

fun join :: "string \<Rightarrow> string list \<Rightarrow> string" where
  "join sep [] = []"
| "join sep [p] = p"
| "join sep (p # q # ps) = p @ sep @ join sep (q # ps)"

text \<open>\<open>s.endswith(suf)\<close>, and \<open>s.endswith(tuple)\<close> for a tuple of suffixes.\<close>

definition endswith :: "string \<Rightarrow> string \<Rightarrow> bool" where
  "endswith s suf = (length suf \<le> length s \<and> drop (length s - length suf) s = suf)"

definition endswith_any :: "string \<Rightarrow> string list \<Rightarrow> bool" where
  "endswith_any s sufs = list_ex (endswith s) sufs"

text \<open>\<open>k in fname\<close> on strings: \<open>k\<close> occurs in \<open>fname\<close> as a contiguous block.\<close>

fun contains :: "string \<Rightarrow> string \<Rightarrow> bool" where
  "contains [] k = (k = [])"
| "contains (c # cs) k = (take (length k) (c # cs) = k \<or> contains cs k)"

text \<open>
  \<open>re.sub(r"[C]+", "-", s)\<close> for a character class \<open>C\<close>: from the left, every
  maximal run of characters of the class is replaced by one hyphen.
\<close>

function re_sub_runs :: "(char \<Rightarrow> bool) \<Rightarrow> string \<Rightarrow> string" where
  "re_sub_runs P [] = []"
| "re_sub_runs P (c # cs) =
     (if P c then CHR ''-'' # re_sub_runs P (dropWhile P cs) else c # re_sub_runs P cs)"
  by pat_completeness auto
termination
  by (relation "measure (\<lambda>(P, s). length s)") (auto simp: length_dropWhile_le less_Suc_eq_le)

text \<open>Decimal rendering, as \<open>str(n)\<close> and an f-string give it for an \<open>int\<close>.\<close>

fun str_nat :: "nat \<Rightarrow> string" where
  "str_nat n = (if n < 10 then [char_of (48 + n)]
                else str_nat (n div 10) @ [char_of (48 + n mod 10)])"

definition str_int :: "int \<Rightarrow> string" where
  "str_int i = (if i < 0 then CHR ''-'' # str_nat (nat (- i)) else str_nat (nat i))"

section \<open>The fallback slugify\<close>

text \<open>
  Lines 17-20. The first line of the function,
  \<open>unicodedata.normalize("NFKD", str(value)).encode("ascii", "ignore").decode("ascii")\<close>,
  uses the Unicode decomposition tables of the standard library; it is the parameter
  \<open>ascii_fold\<close>. The character class of the first substitution is \<open>[^a-zA-Z0-9-]\<close>.
\<close>

definition is_slug_char :: "char \<Rightarrow> bool" where
  "is_slug_char c = (let n = (of_char c :: nat) in
     (97 \<le> n \<and> n \<le> 122) \<or> (65 \<le> n \<and> n \<le> 90) \<or> (48 \<le> n \<and> n \<le> 57) \<or> n = 45)"

definition is_hyphen :: "char \<Rightarrow> bool" where
  "is_hyphen c = (c = CHR ''-'')"

definition slugify :: "(string \<Rightarrow> string) \<Rightarrow> string \<Rightarrow> string" where
  "slugify ascii_fold v =
     (let v1 = ascii_fold v;
          v2 = strip_chars is_hyphen (re_sub_runs (\<lambda>c. \<not> is_slug_char c) (lower v1))
      in re_sub_runs is_hyphen v2)"

text \<open>
  A stand-in for the tables, used where a concrete run is evaluated: it decomposes
  \<open>e\<close> with acute accent (code point 233) into \<open>e\<close> and drops every other character
  outside ASCII.
\<close>

definition demo_fold :: "string \<Rightarrow> string" where
  "demo_fold s = concat (map (\<lambda>c. if (of_char c :: nat) = 233 then ''e''
                                   else if (of_char c :: nat) < 128 then [c] else []) s)"

definition is_ascii :: "string \<Rightarrow> bool" where
  "is_ascii s = list_all (\<lambda>c. (of_char c :: nat) < 128) s"

text \<open>The characters a slug is made of, and strings that neither begin nor end in a class.\<close>

definition slug_out_char :: "char \<Rightarrow> bool" where
  "slug_out_char c = (let n = (of_char c :: nat) in
     (97 \<le> n \<and> n \<le> 122) \<or> (48 \<le> n \<and> n \<le> 57) \<or> n = 45)"

definition no_edge :: "(char \<Rightarrow> bool) \<Rightarrow> string \<Rightarrow> bool" where
  "no_edge P s = (s = [] \<or> (\<not> P (hd s) \<and> \<not> P (last s)))"

section \<open>Python values, bytes and dictionaries\<close>

text \<open>
  The values that occur in payloads and log records. A \<open>dict\<close> is an association list in
  insertion order; \<open>d[k] = v\<close> is \<open>AList.update k v d\<close>, which overwrites the value of a
  key already present in place and appends a new key at the end, and \<open>d.get(k)\<close> is
  \<open>map_of d k\<close>.
\<close>

datatype pyval = PNone | PBool bool | PInt int | PStr string
  | PList "pyval list" | PDict "(string \<times> pyval) list"

type_synonym dict = "(string \<times> pyval) list"

type_synonym bytes = "8 word list"

text \<open>\<open>base64.b64encode(content).decode("utf-8")\<close>.\<close>

definition b64_digit :: "nat \<Rightarrow> char" where
  "b64_digit n = ''ABCDEFGHIJKLMNOPQRSTUVWXYZabcdefghijklmnopqrstuvwxyz0123456789+/'' ! n"

fun b64encode :: "bytes \<Rightarrow> string" where
  "b64encode [] = []"
| "b64encode [a] =
     [b64_digit (unat a div 4), b64_digit ((unat a mod 4) * 16), CHR ''='', CHR ''='']"
| "b64encode [a, b] =
     [b64_digit (unat a div 4), b64_digit ((unat a mod 4) * 16 + unat b div 16),
      b64_digit ((unat b mod 16) * 4), CHR ''='']"
| "b64encode (a # b # c # rest) =
     [b64_digit (unat a div 4), b64_digit ((unat a mod 4) * 16 + unat b div 16),
      b64_digit ((unat b mod 16) * 4 + unat c div 64), b64_digit (unat c mod 64)]
     @ b64encode rest"

section \<open>The image index\<close>

text \<open>
  A ZIP archive is the list of its entries, name and content, in the order of
  \<open>namelist()\<close>. \<open>zf.open(name)\<close> reads the entry that the archive's name table holds
  for the name, which is the last entry of that name. The loop of
  \<open>build_image_index_from_zip\<close> only opens names taken from \<open>namelist()\<close>, so the
  \<open>KeyError\<close> of an unknown name is not reached; \<open>zf_read\<close> gives no bytes there.
\<close>

type_synonym zip_archive = "(string \<times> bytes) list"

type_synonym image_index = "(string \<times> bytes) list"

definition namelist :: "zip_archive \<Rightarrow> string list" where
  "namelist zf = map fst zf"

definition zf_read :: "zip_archive \<Rightarrow> string \<Rightarrow> bytes" where
  "zf_read zf name = (case map_of (rev zf) name of None \<Rightarrow> [] | Some content \<Rightarrow> content)"

definition supported_ext :: "string list" where
  "supported_ext = [''.jpg'', ''.jpeg'', ''.png'', ''.gif'', ''.webp'']"

text \<open>The test of line 140, and the key of line 142.\<close>

definition is_image_name :: "string \<Rightarrow> bool" where
  "is_image_name name = (endswith_any (lower name) supported_ext \<and> \<not> endswith name ''/'')"

definition index_key :: "string \<Rightarrow> string" where
  "index_key name = lower (last (split_on CHR ''/'' name))"

fun index_names :: "zip_archive \<Rightarrow> string list \<Rightarrow> image_index \<Rightarrow> image_index" where
  "index_names zf [] index = index"
| "index_names zf (name # names) index =
     (if is_image_name name
      then index_names zf names (AList.update (index_key name) (zf_read zf name) index)
      else index_names zf names index)"

definition build_image_index_from_zip :: "zip_archive \<Rightarrow> image_index" where
  "build_image_index_from_zip zf = index_names zf (namelist zf) []"

text \<open>Lines 145-152. A found image is the dictionary that is later posted.\<close>

definition image_dict :: "string \<Rightarrow> bytes \<Rightarrow> dict" where
  "image_dict fname content =
     [(''attachment'', PStr (b64encode content)), (''filename'', PStr fname)]"

definition find_images_for_product :: "image_index \<Rightarrow> string list \<Rightarrow> dict list" where
  "find_images_for_product index keys =
     (let keys' = map lower (filter (\<lambda>k. k \<noteq> []) keys)
      in map (\<lambda>(fname, content). image_dict fname content)
           (filter (\<lambda>(fname, content). list_ex (\<lambda>k. contains fname k) keys') index))"

section \<open>Rows and the run-wide settings\<close>

text \<open>
  A row of the data frame maps a column name to a cell, if the column exists. A cell of a
  text column read by \<open>pandas.read_csv\<close> holds a string, or the float \<open>NaN\<close> where the
  field was empty; numeric cells, which \<open>str\<close> would render through the float and integer
  printers, are outside the model. \<open>row.get(col, "")\<close> is \<open>row_get\<close>, \<open>str(x)\<close> is
  \<open>py_str\<close>, and \<open>x or ""\<close> is \<open>or_empty\<close>: it replaces a falsy value by the empty
  string, and of the cells of the model only the empty string is falsy (\<open>NaN\<close> is truthy).
\<close>

datatype cell = Text string | NaN

type_synonym row = "string \<Rightarrow> cell option"

definition row_get :: "row \<Rightarrow> string \<Rightarrow> cell" where
  "row_get r col = (case r col of None \<Rightarrow> Text [] | Some v \<Rightarrow> v)"

fun py_str :: "cell \<Rightarrow> string" where
  "py_str (Text s) = s"
| "py_str NaN = ''nan''"

fun or_empty :: "cell \<Rightarrow> cell" where
  "or_empty (Text s) = Text s"
| "or_empty NaN = NaN"

text \<open>
  The sidebar settings. \<open>default_price\<close> holds the text \<open>str(default_price)\<close> of the
  float of line 97; the two integer inputs are \<open>inventory_qty_default\<close> and
  \<open>max_images_per_product\<close>, the latter with \<open>min_value=0\<close>.
\<close>

record config =
  default_vendor :: string
  default_product_type :: string
  default_price :: string
  default_status :: string
  inventory_policy :: string
  inventory_qty_default :: int
  max_images_per_product :: nat

text \<open>Lines 212-220.\<close>

definition row_title :: "row \<Rightarrow> string" where
  "row_title r = strip (py_str (row_get r ''Titolo Prodotto''))"

definition row_sku :: "row \<Rightarrow> string" where
  "row_sku r = strip (py_str (row_get r ''SKU''))"

definition row_body_html :: "row \<Rightarrow> string" where
  "row_body_html r = strip (py_str (row_get r ''Descrizione''))"

definition row_tags :: "row \<Rightarrow> string" where
  "row_tags r = strip (py_str (or_empty (row_get r ''Tag'')))"

definition row_seo_title :: "row \<Rightarrow> string" where
  "row_seo_title r = strip (py_str (or_empty (row_get r ''Titolo della pagina'')))"

definition row_seo_desc :: "row \<Rightarrow> string" where
  "row_seo_desc r = strip (py_str (or_empty (row_get r ''Meta descrizione'')))"

definition row_handle_column :: "row \<Rightarrow> string" where
  "row_handle_column r = strip (py_str (or_empty (row_get r ''Handle URL'')))"

text \<open>
  The handle of line 220 is the column if that is not empty, else the slug of the title,
  else \<open>None\<close>. The function \<open>slug\<close> is whichever \<open>slugify\<close> lines 13-20 bound: the one of
  the python-slugify package, or the fallback.
\<close>

definition row_handle :: "(string \<Rightarrow> string) \<Rightarrow> row \<Rightarrow> string option" where
  "row_handle slug r =
     (if row_handle_column r \<noteq> [] then Some (row_handle_column r)
      else if row_title r \<noteq> [] then Some (slug (row_title r)) else None)"

text \<open>
  \<open>[k for k in [x] if k]\<close> for a string or \<open>None\<close>: the value itself if it is neither
  \<open>None\<close> nor empty.
\<close>

fun if_truthy :: "string option \<Rightarrow> string list" where
  "if_truthy None = []"
| "if_truthy (Some s) = (if s \<noteq> [] then [s] else [])"

text \<open>Lines 237-238: the tag list and the value stored under \<open>"tags"\<close>.\<close>

definition tag_list :: "string \<Rightarrow> string list" where
  "tag_list tags = filter (\<lambda>t. t \<noteq> []) (map strip (split_on CHR '','' tags))"

definition tags_str :: "string \<Rightarrow> pyval" where
  "tags_str tags = (if tag_list tags \<noteq> [] then PStr (join '', '' (tag_list tags)) else PNone)"

text \<open>Lines 241-246: the keys of a row and the images found for it.\<close>

definition identity_keys :: "string \<Rightarrow> string option \<Rightarrow> string list" where
  "identity_keys sku handle = if_truthy (Some sku) @ if_truthy handle"

definition images_found :: "config \<Rightarrow> image_index \<Rightarrow> string \<Rightarrow> string option \<Rightarrow> dict list" where
  "images_found cfg image_index sku handle =
     (if image_index \<noteq> [] then
        (let found = find_images_for_product image_index (identity_keys sku handle)
         in if max_images_per_product cfg \<noteq> 0 \<and> length found > max_images_per_product cfg
            then take (max_images_per_product cfg) found else found)
      else [])"

text \<open>Lines 227-235 and 249-259.\<close>

definition variant :: "config \<Rightarrow> string \<Rightarrow> dict" where
  "variant cfg sku =
     [(''sku'', if sku \<noteq> [] then PStr sku else PNone),
      (''price'', PStr (default_price cfg)),
      (''inventory_policy'', PStr (inventory_policy cfg)),
      (''inventory_management'', PStr ''shopify''),
      (''inventory_quantity'', PInt (inventory_qty_default cfg)),
      (''requires_shipping'', PBool True),
      (''taxable'', PBool True)]"

definition product_payload :: "(string \<Rightarrow> string) \<Rightarrow> config \<Rightarrow> row \<Rightarrow> dict" where
  "product_payload slug cfg r =
     (let payload =
        [(''title'', PStr (row_title r)),
         (''body_html'', PStr (row_body_html r)),
         (''vendor'', PStr (default_vendor cfg)),
         (''product_type'', PStr (default_product_type cfg)),
         (''status'', PStr (default_status cfg)),
         (''tags'', tags_str (row_tags r)),
         (''variants'', PList [PDict (variant cfg (row_sku r))])]
      in case if_truthy (row_handle slug r) of
           [] \<Rightarrow> payload
         | handle # _ \<Rightarrow> AList.update ''handle'' (PStr handle) payload)"

section \<open>The remote API\<close>

text \<open>
  A request is what \<open>session.post\<close> or \<open>session.put\<close> is called with: the method, the
  path behind \<open>API_BASE\<close> and the JSON body. What comes back for one sending of a request
  is either a network-level failure (an exception of the connection such as a timeout or a
  reset) or a response, of which the program and its HTTP session read the status code,
  whether a \<open>Retry-After\<close> header is present, the text and \<open>resp.json()\<close>. Of the JSON
  value the program reads \<open>res.get("product", {})\<close> and of that \<open>.get("id")\<close> and
  \<open>.get("handle")\<close>: \<open>Json_product\<close> holds the two, \<open>None\<close> where the key is missing;
  \<open>Json_misshapen\<close> is a JSON value on which these \<open>.get\<close> calls raise \<open>AttributeError\<close>;
  \<open>Not_json\<close> is a body on which \<open>resp.json()\<close> raises.

  The remote side is a function from the requests sent so far, the current one last, to
  what comes back for the current one. The state of a run is the list of requests sent
  over the wire, the list \<open>logs\<close> and the notes shown by \<open>st.info\<close>; the rest of the page
  output is not modelled, and neither is the time spent waiting between two sendings.
\<close>

datatype http_method = POST | PUT

record request =
  req_method :: http_method
  req_path :: string
  req_body :: pyval

datatype json_body = Not_json | Json_misshapen | Json_product "int option" "string option"

datatype http_result = Network_failure string | Response nat bool string json_body

type_synonym remote = "request list \<Rightarrow> http_result"

datatype exn = ShopifyError string | OtherError string

record world =
  sent :: "request list"
  logs :: "dict list"
  infos :: "string list"

text \<open>
  Lines 53-56: every call goes through the session, on which
  \<open>Retry(total=5, status_forcelist=[429, 500, 502, 503, 504],
  allowed_methods=["GET","POST","PUT"])\<close> is mounted for \<open>https://\<close>. With it the session
  sends a request again by itself when the connection fails and when the response is one
  that \<open>Retry.is_retry\<close> accepts: the method is allowed, which \<open>POST\<close> and \<open>PUT\<close> are, and
  the status is in the forcelist, or retries are left, the response has a \<open>Retry-After\<close>
  header and the status is 413, 429 or 503. Each sending after the first takes one of the
  five retries, of which \<open>remaining\<close> are left; when a failure arrives and none is left, the session raises: a \<open>RetryError\<close>
  of the \<open>requests\<close> library after a response, a connection error after a network
  failure. Neither is a \<open>ShopifyError\<close>. A response that is not retried is returned to the
  caller.
\<close>

definition status_forcelist :: "nat list" where
  "status_forcelist = [429, 500, 502, 503, 504]"

definition retry_after_status_codes :: "nat list" where
  "retry_after_status_codes = [413, 429, 503]"

definition is_retry :: "nat \<Rightarrow> nat \<Rightarrow> bool \<Rightarrow> bool" where
  "is_retry remaining status_code has_retry_after =
     (status_code \<in> set status_forcelist
      \<or> (remaining \<noteq> 0 \<and> has_retry_after \<and> status_code \<in> set retry_after_status_codes))"

function session_request :: "remote \<Rightarrow> request \<Rightarrow> nat \<Rightarrow> world \<Rightarrow> (exn + nat \<times> string \<times> json_body) \<times> world" where
  "session_request rem req remaining w =
     (let w' = w\<lparr>sent := sent w @ [req]\<rparr>
      in case rem (sent w') of
           Network_failure msg \<Rightarrow>
             if remaining = 0 then (Inl (OtherError msg), w')
             else session_request rem req (remaining - 1) w'
         | Response status_code has_retry_after text body \<Rightarrow>
             if is_retry remaining status_code has_retry_after
             then (if remaining = 0 then (Inl (OtherError ''RetryError''), w')
                   else session_request rem req (remaining - 1) w')
             else (Inr (status_code, text, body), w'))"
  by pat_completeness auto
termination
  by (relation "measure (\<lambda>(rem, req, remaining, w). remaining)") auto

declare session_request.simps [simp del]

text \<open>Lines 75-87. The message of the \<open>ShopifyError\<close> is the f-string of the source.\<close>

definition method_name :: "http_method \<Rightarrow> string" where
  "method_name m = (case m of POST \<Rightarrow> ''POST'' | PUT \<Rightarrow> ''PUT'')"

definition call_result :: "http_method \<Rightarrow> string \<Rightarrow> nat \<Rightarrow> string \<Rightarrow> json_body \<Rightarrow> exn + json_body" where
  "call_result m path status_code text body =
     (if status_code \<ge> 400
      then Inl (ShopifyError (method_name m @ '' '' @ path @ '' -> '' @ str_nat status_code
                               @ '': '' @ text))
      else (case body of
              Not_json \<Rightarrow> Inl (OtherError ''JSONDecodeError'')
            | _ \<Rightarrow> Inr body))"

definition api_call :: "remote \<Rightarrow> http_method \<Rightarrow> string \<Rightarrow> pyval \<Rightarrow> world \<Rightarrow> (exn + json_body) \<times> world" where
  "api_call rem m path payload w =
     (case session_request rem \<lparr>req_method = m, req_path = path, req_body = payload\<rparr> 5 w of
        (Inl e, w') \<Rightarrow> (Inl e, w')
      | (Inr (status_code, text, body), w') \<Rightarrow> (call_result m path status_code text body, w'))"

definition api_post :: "remote \<Rightarrow> string \<Rightarrow> pyval \<Rightarrow> world \<Rightarrow> (exn + json_body) \<times> world" where
  "api_post rem path payload w = api_call rem POST path payload w"

definition api_put :: "remote \<Rightarrow> string \<Rightarrow> pyval \<Rightarrow> world \<Rightarrow> (exn + json_body) \<times> world" where
  "api_put rem path payload w = api_call rem PUT path payload w"

text \<open>
  The decorator of lines 157-162 and 166-171, \<open>retry(reraise=True,
  stop=stop_after_attempt(4), retry=retry_if_exception_type(ShopifyError))\<close>: the function
  is called; a result is returned; an exception that is not a \<open>ShopifyError\<close> propagates
  at once; a \<open>ShopifyError\<close> is raised again if the attempt number has reached the stop,
  and otherwise the function is called again with the next attempt number.
\<close>

function retry_call :: "nat \<Rightarrow> nat \<Rightarrow> (world \<Rightarrow> (exn + 'a) \<times> world) \<Rightarrow> world \<Rightarrow> (exn + 'a) \<times> world" where
  "retry_call stop attempt f w =
     (case f w of
        (Inr v, w') \<Rightarrow> (Inr v, w')
      | (Inl (OtherError msg), w') \<Rightarrow> (Inl (OtherError msg), w')
      | (Inl (ShopifyError msg), w') \<Rightarrow>
          if attempt \<ge> stop then (Inl (ShopifyError msg), w')
          else retry_call stop (Suc attempt) f w')"
  by pat_completeness auto
termination
  by (relation "measure (\<lambda>(stop, attempt, f, w). stop - attempt)") auto

declare retry_call.simps [simp del]

definition create_request :: "dict \<Rightarrow> request" where
  "create_request payload =
     \<lparr>req_method = POST, req_path = ''/products.json'',
      req_body = PDict [(''product'', PDict payload)]\<rparr>"

definition create_product :: "remote \<Rightarrow> dict \<Rightarrow> world \<Rightarrow> (exn + json_body) \<times> world" where
  "create_product rem payload w =
     retry_call 4 1 (api_post rem ''/products.json'' (PDict [(''product'', PDict payload)])) w"

text \<open>The product id in a path, as the f-string prints an \<open>int\<close> or \<open>None\<close>.\<close>

definition str_id :: "int option \<Rightarrow> string" where
  "str_id product_id = (case product_id of None \<Rightarrow> ''None'' | Some i \<Rightarrow> str_int i)"

definition attach_request :: "int option \<Rightarrow> dict \<Rightarrow> request" where
  "attach_request product_id image_payload =
     \<lparr>req_method = POST, req_path = ''/products/'' @ str_id product_id @ ''/images.json'',
      req_body = PDict [(''image'', PDict image_payload)]\<rparr>"

definition attach_image :: "remote \<Rightarrow> int option \<Rightarrow> dict \<Rightarrow> world \<Rightarrow> (exn + json_body) \<times> world" where
  "attach_image rem product_id image_payload w =
     retry_call 4 1 (api_post rem (''/products/'' @ str_id product_id @ ''/images.json'')
                       (PDict [(''image'', PDict image_payload)])) w"

text \<open>Lines 175-182.\<close>

definition seo_update :: "string \<Rightarrow> string \<Rightarrow> dict" where
  "seo_update seo_title seo_desc =
     (if seo_title \<noteq> [] then [(''metafields_global_title_tag'', PStr (take 70 seo_title))] else [])
     @ (if seo_desc \<noteq> [] then [(''metafields_global_description_tag'', PStr (take 320 seo_desc))]
        else [])"

definition update_product_metafields :: "remote \<Rightarrow> int option \<Rightarrow> string \<Rightarrow> string \<Rightarrow> world \<Rightarrow> (exn + unit) \<times> world" where
  "update_product_metafields rem product_id seo_title seo_desc w =
     (if seo_update seo_title seo_desc \<noteq> []
      then (case api_put rem (''/products/'' @ str_id product_id @ ''.json'')
                   (PDict [(''product'', PDict (seo_update seo_title seo_desc))]) w of
              (Inl e, w') \<Rightarrow> (Inl e, w')
            | (Inr _, w') \<Rightarrow> (Inr (), w'))
      else (Inr (), w))"

section \<open>The main loop\<close>

text \<open>The four kinds of log record, lines 223, 277-285, 287-295 and 297-303.\<close>

definition opt_int :: "int option \<Rightarrow> pyval" where
  "opt_int x = (case x of None \<Rightarrow> PNone | Some i \<Rightarrow> PInt i)"

definition opt_str :: "string option \<Rightarrow> pyval" where
  "opt_str x = (case x of None \<Rightarrow> PNone | Some s \<Rightarrow> PStr s)"

definition skipped_log :: "int \<Rightarrow> string \<Rightarrow> string \<Rightarrow> dict" where
  "skipped_log i title sku =
     [(''row'', PInt i), (''title'', PStr title), (''sku'', PStr sku),
      (''status'', PStr ''skipped''), (''reason'', PStr ''Titolo mancante'')]"

definition image_error_log :: "int \<Rightarrow> string \<Rightarrow> string \<Rightarrow> int option \<Rightarrow> string \<Rightarrow> dict \<Rightarrow> dict" where
  "image_error_log i title sku product_id msg img =
     [(''row'', PInt i), (''title'', PStr title), (''sku'', PStr sku),
      (''product_id'', opt_int product_id), (''status'', PStr ''image_error''),
      (''error'', PStr (take 300 msg)),
      (''filename'', (case map_of img ''filename'' of None \<Rightarrow> PNone | Some v \<Rightarrow> v))]"

definition created_log :: "int \<Rightarrow> string \<Rightarrow> string \<Rightarrow> int option \<Rightarrow> string option \<Rightarrow> nat \<Rightarrow> dict" where
  "created_log i title sku product_id handle attached =
     [(''row'', PInt i), (''title'', PStr title), (''sku'', PStr sku),
      (''product_id'', opt_int product_id), (''handle'', opt_str handle),
      (''status'', PStr ''created''), (''images_attached'', PInt (int attached))]"

definition error_log :: "int \<Rightarrow> string \<Rightarrow> string \<Rightarrow> string \<Rightarrow> dict" where
  "error_log i title sku msg =
     [(''row'', PInt i), (''title'', PStr title), (''sku'', PStr sku),
      (''status'', PStr ''error''), (''error'', PStr (take 500 msg))]"

definition append_log :: "dict \<Rightarrow> world \<Rightarrow> world" where
  "append_log l w = w\<lparr>logs := logs w @ [l]\<rparr>"

text \<open>
  Lines 271-285: the images are attached one after the other. A \<open>ShopifyError\<close> is caught
  and logged; any other exception leaves the loop, and it is caught by neither \<open>except\<close>
  clause of the source.
\<close>

fun attach_images :: "remote \<Rightarrow> int \<Rightarrow> string \<Rightarrow> string \<Rightarrow> int option \<Rightarrow> dict list \<Rightarrow> nat \<Rightarrow> world \<Rightarrow> (exn + nat) \<times> world" where
  "attach_images rem i title sku product_id [] attached w = (Inr attached, w)"
| "attach_images rem i title sku product_id (img # imgs) attached w =
     (case attach_image rem product_id img w of
        (Inr _, w') \<Rightarrow> attach_images rem i title sku product_id imgs (Suc attached) w'
      | (Inl (ShopifyError msg), w') \<Rightarrow>
          attach_images rem i title sku product_id imgs attached
            (append_log (image_error_log i title sku product_id msg img) w')
      | (Inl (OtherError msg), w') \<Rightarrow> (Inl (OtherError msg), w'))"

text \<open>
  Lines 262-295, once \<open>create_product\<close> has returned \<open>res\<close>: the result is \<open>None\<close> when
  the row ends with its \<open>created\<close> record, and the exception that leaves the loop of the
  rows otherwise.
\<close>

definition after_create :: "remote \<Rightarrow> int \<Rightarrow> string \<Rightarrow> string \<Rightarrow> string \<Rightarrow> string \<Rightarrow> dict list \<Rightarrow> json_body \<Rightarrow> world \<Rightarrow> exn option \<times> world" where
  "after_create rem i title sku seo_title seo_desc images res w =
     (case res of
        Json_product product_id handle \<Rightarrow>
          (case update_product_metafields rem product_id seo_title seo_desc w of
             (Inl (OtherError msg), w') \<Rightarrow> (Some (OtherError msg), w')
           | (r, w') \<Rightarrow>
               (let w'' = (case r of
                             Inl (ShopifyError msg) \<Rightarrow>
                               w'\<lparr>infos := infos w' @ [''SEO non aggiornato per '' @ title @ '': '' @ msg]\<rparr>
                           | _ \<Rightarrow> w')
                in case attach_images rem i title sku product_id images 0 w'' of
                     (Inl e, w3) \<Rightarrow> (Some e, w3)
                   | (Inr attached, w3) \<Rightarrow>
                       (None, append_log (created_log i title sku product_id handle attached) w3)))
      | _ \<Rightarrow> (Some (OtherError ''AttributeError''), w))"

text \<open>Lines 211-305 for one row \<open>(i, row)\<close> of \<open>df.iterrows()\<close>.\<close>

definition process_row :: "remote \<Rightarrow> (string \<Rightarrow> string) \<Rightarrow> config \<Rightarrow> image_index \<Rightarrow> int \<times> row \<Rightarrow> world \<Rightarrow> exn option \<times> world" where
  "process_row rem slug cfg image_index ir w =
     (let i = fst ir; r = snd ir; title = row_title r; sku = row_sku r
      in if title = [] then (None, append_log (skipped_log i title sku) w)
         else (case create_product rem (product_payload slug cfg r) w of
                 (Inl (ShopifyError msg), w') \<Rightarrow> (None, append_log (error_log i title sku msg) w')
               | (Inl (OtherError msg), w') \<Rightarrow> (Some (OtherError msg), w')
               | (Inr res, w') \<Rightarrow>
                   after_create rem i title sku (row_seo_title r) (row_seo_desc r)
                     (images_found cfg image_index sku (row_handle slug r)) res w'))"


section \<open>Notions used in the statements\<close>

text \<open>An outcome of a call that is the exception \<open>ShopifyError\<close>.\<close>

definition is_shopify_error :: "exn + json_body \<Rightarrow> bool" where
  "is_shopify_error r = (case r of Inl (ShopifyError msg) \<Rightarrow> True | _ \<Rightarrow> False)"

text \<open>
  What comes back makes the session send the request again, or raise if no retry is left,
  whatever the number of retries left: a network failure or a status of the forcelist.
\<close>

definition session_failure :: "http_result \<Rightarrow> bool" where
  "session_failure r = (case r of Network_failure msg \<Rightarrow> True
                               | Response status_code has_retry_after text body \<Rightarrow>
                                   status_code \<in> set status_forcelist)"




text \<open>
  The state after those calls, and the state in which the loop of the images starts: the
  one that lines 265-268 leave when the SEO update returns or raises \<open>ShopifyError\<close>, of
  which \<open>st.info\<close> then shows a note.
\<close>

fun attach_world :: "remote \<Rightarrow> int option \<Rightarrow> dict list \<Rightarrow> world \<Rightarrow> world" where
  "attach_world rem product_id [] w = w"
| "attach_world rem product_id (img # imgs) w =
     attach_world rem product_id imgs (snd (attach_image rem product_id img w))"


text \<open>
  The retry policy of a decorated call, told by the outcomes of the undecorated function
  \<open>attempt\<close> when it is called up to four times in a row from the state \<open>w\<close>: the call
  ends with the first attempt that does not raise \<open>ShopifyError\<close>, and with the fourth
  attempt, whatever its outcome, if the first three raise it; the state is the one the
  last of these attempts leaves, so no further attempt is made.
\<close>

definition follows_retry_policy :: "(world \<Rightarrow> (exn + json_body) \<times> world) \<Rightarrow> (world \<Rightarrow> (exn + json_body) \<times> world) \<Rightarrow> world \<Rightarrow> bool" where
  "follows_retry_policy call attempt w =
     (let a1 = attempt w; a2 = attempt (snd a1); a3 = attempt (snd a2); a4 = attempt (snd a3)
      in (\<not> is_shopify_error (fst a1) \<longrightarrow> call w = a1)
       \<and> (is_shopify_error (fst a1) \<and> \<not> is_shopify_error (fst a2) \<longrightarrow> call w = a2)
       \<and> (is_shopify_error (fst a1) \<and> is_shopify_error (fst a2) \<and> \<not> is_shopify_error (fst a3)
            \<longrightarrow> call w = a3)
       \<and> (is_shopify_error (fst a1) \<and> is_shopify_error (fst a2) \<and> is_shopify_error (fst a3)
            \<longrightarrow> call w = a4))"

section \<open>Concrete inputs\<close>

definition demo_config :: "nat \<Rightarrow> config" where
  "demo_config n =
     \<lparr>default_vendor = ''Brand'', default_product_type = ''Altro'', default_price = ''0.0'',
      default_status = ''active'', inventory_policy = ''deny'', inventory_qty_default = 0,
      max_images_per_product = n\<rparr>"

definition empty_world :: world where
  "empty_world = \<lparr>sent = [], logs = [], infos = []\<rparr>"

definition demo_row :: "string \<Rightarrow> string \<Rightarrow> row" where
  "demo_row title sku = [''Titolo Prodotto'' \<mapsto> Text title, ''SKU'' \<mapsto> Text sku]"

text \<open>
  A remote side that gives the reply \<open>bad\<close> to the first \<open>n\<close> requests on the wire and
  answers every later one with the product 7 of the handle \<open>mug\<close>.
\<close>

definition flaky_remote :: "http_result \<Rightarrow> nat \<Rightarrow> remote" where
  "flaky_remote bad n history =
     (if length history \<le> n then bad
      else Response 201 False ''{}'' (Json_product (Some 7) (Some ''mug'')))"



definition demo_index :: image_index where
  "demo_index = [(''a1-front.jpg'', [1, 2, 3]), (''a1-back.png'', [4, 5])]"

section \<open>Facts about the text functions\<close>

lemma char_of_nat_bits:
  "char_of (n::nat) = Char (odd n) (odd (n div 2)) (odd (n div 4)) (odd (n div 8))
     (odd (n div 16)) (odd (n div 32)) (odd (n div 64)) (odd (n div 128))"
  by (simp add: char_of_def bit_iff_odd)

lemma of_char_lower_char:
  "(of_char (lower_char c) :: nat) = (let n = (of_char c :: nat) in
     if (65 \<le> n \<and> n \<le> 90) \<or> (192 \<le> n \<and> n \<le> 222 \<and> n \<noteq> 215)
     then n + 32 else n)"
  by (auto simp: lower_char_def Let_def)

lemma lower_char_slug_out: "is_slug_char (lower_char c) \<Longrightarrow> slug_out_char (lower_char c)"
  by (auto simp: is_slug_char_def slug_out_char_def of_char_lower_char Let_def split: if_splits)

lemma lower_char_id: "slug_out_char c \<Longrightarrow> lower_char c = c"
  by (auto simp: slug_out_char_def lower_char_def Let_def)

lemma slug_out_is_slug: "slug_out_char c \<Longrightarrow> is_slug_char c"
  by (auto simp: slug_out_char_def is_slug_char_def Let_def)

lemma slug_out_hyphen: "slug_out_char CHR ''-''"
  by (simp add: slug_out_char_def)

lemma set_dropWhile_subset: "set (dropWhile P xs) \<subseteq> set xs"
  by (auto dest: set_dropWhileD)

lemma set_re_sub_runs: "set (re_sub_runs P s) \<subseteq> insert CHR ''-'' {c \<in> set s. \<not> P c}"
proof (induction P s rule: re_sub_runs.induct)
  case (1 P)
  then show ?case by simp
next
  case (2 P c cs)
  show ?case
  proof (cases "P c")
    case True
    have "set (dropWhile P cs) \<subseteq> set cs" by (rule set_dropWhile_subset)
    with True 2 show ?thesis by auto
  next
    case False
    with 2 show ?thesis by auto
  qed
qed

lemma set_strip_chars: "set (strip_chars P s) \<subseteq> set s"
proof -
  have "set (strip_chars P s) = set (dropWhile P (rev (dropWhile P s)))"
    by (simp only: strip_chars_def set_rev)
  also have "\<dots> \<subseteq> set (rev (dropWhile P s))" by (rule set_dropWhile_subset)
  also have "\<dots> = set (dropWhile P s)" by (simp only: set_rev)
  also have "\<dots> \<subseteq> set s" by (rule set_dropWhile_subset)
  finally show ?thesis .
qed

lemma re_sub_runs_id: "\<forall>c \<in> set s. \<not> P c \<Longrightarrow> re_sub_runs P s = s"
  by (induction s) auto

lemma last_dropWhile: "dropWhile P xs \<noteq> [] \<Longrightarrow> last (dropWhile P xs) = last xs"
  by (induction xs) (auto split: if_splits)

lemma dropWhile_last_neq: "xs \<noteq> [] \<Longrightarrow> \<not> P (last xs) \<Longrightarrow> dropWhile P xs \<noteq> []"
  by (induction xs) (auto split: if_splits)

lemma dropWhile_id_hd: "s = [] \<or> \<not> P (hd s) \<Longrightarrow> dropWhile P s = s"
  by (cases s) auto

lemma no_edge_strip_chars: "no_edge P (strip_chars P s)"
proof -
  let ?t = "dropWhile P s"
  let ?u = "dropWhile P (rev ?t)"
  show ?thesis
  proof (cases "?u = []")
    case True
    then show ?thesis by (simp add: no_edge_def strip_chars_def)
  next
    case False
    then have hu: "\<not> P (hd ?u)" by (rule hd_dropWhile)
    have "?t \<noteq> []"
    proof
      assume "?t = []"
      then have "?u = []" by (simp only: rev.simps dropWhile.simps)
      with False show False by simp
    qed
    then have ht: "\<not> P (hd ?t)" by (rule hd_dropWhile)
    then have "\<not> P (last (rev ?t))" using \<open>?t \<noteq> []\<close> by (simp add: last_rev)
    moreover have "last ?u = last (rev ?t)"
      using False by (rule last_dropWhile)
    ultimately have "\<not> P (last ?u)" by simp
    with hu False show ?thesis
      by (simp add: no_edge_def strip_chars_def hd_rev last_rev)
  qed
qed

lemma strip_chars_id: "no_edge P s \<Longrightarrow> strip_chars P s = s"
proof (cases "s = []")
  case True
  then show ?thesis by (simp add: strip_chars_def)
next
  case False
  assume "no_edge P s"
  with False have h: "\<not> P (hd s)" and l: "\<not> P (last s)" by (auto simp: no_edge_def)
  from h have "dropWhile P s = s" by (simp add: dropWhile_id_hd)
  moreover from l False have "dropWhile P (rev s) = rev s"
    by (intro dropWhile_id_hd) (simp add: hd_rev)
  ultimately show ?thesis by (simp add: strip_chars_def)
qed

lemma re_sub_runs_last:
  "s \<noteq> [] \<Longrightarrow> \<not> P (last s) \<Longrightarrow> re_sub_runs P s \<noteq> [] \<and> last (re_sub_runs P s) = last s"
proof (induction P s rule: re_sub_runs.induct)
  case (1 P)
  then show ?case by simp
next
  case (2 P c cs)
  show ?case
  proof (cases "P c")
    case True
    with 2 have cs: "cs \<noteq> []" by auto
    with 2 have l: "\<not> P (last cs)" by simp
    then have ne: "dropWhile P cs \<noteq> []" using cs by (simp only: dropWhile_last_neq not_False_eq_True)
    have "last (dropWhile P cs) = last cs"
      using ne by (rule last_dropWhile)
    with 2 True ne l cs show ?thesis by simp
  next
    case False
    show ?thesis
    proof (cases "cs = []")
      case True
      with False show ?thesis by simp
    next
      case False
      with 2 \<open>\<not> P c\<close> show ?thesis by simp
    qed
  qed
qed

lemma no_edge_re_sub_runs: "no_edge P s \<Longrightarrow> no_edge P (re_sub_runs P s)"
proof (cases s)
  case Nil
  then show ?thesis by (simp add: no_edge_def)
next
  case (Cons c cs)
  assume "no_edge P s"
  with Cons have h: "\<not> P c" and l: "\<not> P (last s)" by (auto simp: no_edge_def)
  from Cons l have "re_sub_runs P s \<noteq> [] \<and> last (re_sub_runs P s) = last s"
    by (intro re_sub_runs_last) auto
  moreover from Cons h have "hd (re_sub_runs P s) = c" by simp
  ultimately show ?thesis using h l by (simp add: no_edge_def)
qed

lemma re_sub_runs_hd:
  "s = [] \<or> \<not> P (hd s) \<Longrightarrow> re_sub_runs P s = [] \<or> \<not> P (hd (re_sub_runs P s))"
  by (cases s) auto

lemma re_sub_runs_idem: "P CHR ''-'' \<Longrightarrow> re_sub_runs P (re_sub_runs P s) = re_sub_runs P s"
proof (induction P s rule: re_sub_runs.induct)
  case (1 P)
  then show ?case by simp
next
  case (2 P c cs)
  show ?case
  proof (cases "P c")
    case True
    let ?u = "dropWhile P cs"
    have "?u = [] \<or> \<not> P (hd ?u)" by (cases "?u = []") (simp_all only: hd_dropWhile not_False_eq_True simp_thms)
    then have "re_sub_runs P ?u = [] \<or> \<not> P (hd (re_sub_runs P ?u))"
      by (rule re_sub_runs_hd)
    then have "dropWhile P (re_sub_runs P ?u) = re_sub_runs P ?u"
      by (rule dropWhile_id_hd)
    with 2 True show ?thesis by simp
  next
    case False
    with 2 show ?thesis by simp
  qed
qed

lemma slugify_chars: "\<forall>c \<in> set (slugify f x). slug_out_char c"
proof
  fix c assume "c \<in> set (slugify f x)"
  let ?s3 = "re_sub_runs (\<lambda>c. \<not> is_slug_char c) (lower (f x))"
  from \<open>c \<in> set (slugify f x)\<close>
  have "c \<in> insert CHR ''-'' {c \<in> set (strip_chars is_hyphen ?s3). \<not> is_hyphen c}"
    using set_re_sub_runs[of is_hyphen "strip_chars is_hyphen ?s3"]
    by (auto simp: slugify_def Let_def)
  then have "c = CHR ''-'' \<or> c \<in> set ?s3"
    using set_strip_chars[of is_hyphen ?s3] by auto
  then have "c = CHR ''-'' \<or> (c \<in> set (lower (f x)) \<and> is_slug_char c)"
    using set_re_sub_runs[of "\<lambda>c. \<not> is_slug_char c" "lower (f x)"] by auto
  then show "slug_out_char c"
    by (auto simp: lower_def slug_out_hyphen lower_char_slug_out)
qed

lemma slugify_no_edge: "no_edge is_hyphen (slugify f x)"
  by (simp add: slugify_def Let_def no_edge_re_sub_runs no_edge_strip_chars)

lemma slug_out_ascii: "\<forall>c \<in> set s. slug_out_char c \<Longrightarrow> is_ascii s"
  by (auto simp: is_ascii_def list_all_iff slug_out_char_def Let_def)

text \<open>
  C9. The fallback slugify is idempotent: applied to its own result it returns that
  result, for every string. The one fact used about the decomposition tables is that they
  leave a pure ASCII string unchanged.
\<close>

theorem slugify_idempotent:
  assumes "\<forall>s. is_ascii s \<longrightarrow> ascii_fold s = s"
  shows "slugify ascii_fold (slugify ascii_fold x) = slugify ascii_fold x"
proof -
  let ?y = "slugify ascii_fold x"
  have chars: "\<forall>c \<in> set ?y. slug_out_char c" by (rule slugify_chars)
  have 1: "ascii_fold ?y = ?y" using assms slug_out_ascii[OF chars] by simp
  have 2: "lower ?y = ?y" using chars by (simp add: lower_def lower_char_id map_idI)
  have 3: "re_sub_runs (\<lambda>c. \<not> is_slug_char c) ?y = ?y"
    using chars by (intro re_sub_runs_id) (auto simp: slug_out_is_slug)
  have 4: "strip_chars is_hyphen ?y = ?y" by (rule strip_chars_id[OF slugify_no_edge])
  have 5: "re_sub_runs is_hyphen ?y = ?y"
    unfolding slugify_def Let_def by (rule re_sub_runs_idem) (simp add: is_hyphen_def)
  have "slugify ascii_fold ?y =
        re_sub_runs is_hyphen (strip_chars is_hyphen
          (re_sub_runs (\<lambda>c. \<not> is_slug_char c) (lower (ascii_fold ?y))))"
    by (simp add: slugify_def Let_def)
  also have "\<dots> = ?y" by (simp only: 1 2 3 4 5)
  finally show ?thesis .
qed

lemma demo_fold_ascii: "is_ascii s \<Longrightarrow> demo_fold s = s"
  by (induction s) (auto simp: is_ascii_def demo_fold_def)

lemma slug_demo: "slugify demo_fold ''  Hello, World -- 2024! '' = ''hello-world-2024''"
  by code_simp

theorem slugify_idempotent_witness:
  "slugify demo_fold (slugify demo_fold ''  Hello, World -- 2024! '') = ''hello-world-2024''"
proof -
  have h: "\<forall>s. is_ascii s \<longrightarrow> demo_fold s = s" by (simp add: demo_fold_ascii)
  have "slugify demo_fold (slugify demo_fold ''  Hello, World -- 2024! '') =
        slugify demo_fold ''  Hello, World -- 2024! ''"
    by (rule slugify_idempotent [OF h])
  then show ?thesis by (simp only: slug_demo)
qed

section \<open>The image index holds the image entries\<close>

lemma map_of_index_names:
  "map_of (index_names zf names index) k =
     (map_of index ++ map_of (rev (map (\<lambda>n. (index_key n, zf_read zf n))
                                    (filter is_image_name names)))) k"
proof (induction names arbitrary: index)
  case Nil
  then show ?case by simp
next
  case (Cons name names)
  show ?case
  proof (cases "is_image_name name")
    case True
    with Cons show ?thesis
      by (simp add: update_conv' map_add_def split: option.splits)
  next
    case False
    with Cons show ?thesis by simp
  qed
qed

lemma distinct_index_names:
  "distinct (map fst index) \<Longrightarrow> distinct (map fst (index_names zf names index))"
  by (induction names arbitrary: index) (simp_all add: distinct_update)

lemma map_of_rev_keyed_cong:
  "\<forall>m \<in> set ms. key m = k \<longrightarrow> f m = g m \<Longrightarrow>
   map_of (rev (map (\<lambda>m. (key m, f m)) ms)) k = map_of (rev (map (\<lambda>m. (key m, g m)) ms)) k"
  by (induction ms) (auto simp: map_add_def split: option.splits)

lemma zf_read_snoc: "zf_read (es @ [(n, c)]) m = (if m = n then c else zf_read es m)"
  by (simp add: zf_read_def)

lemma map_of_read_entries:
  "map_of (rev (map (\<lambda>n. (index_key n, zf_read zf n)) (filter is_image_name (map fst zf)))) k =
   map_of (rev (map (\<lambda>(n, c). (index_key n, c)) (filter (\<lambda>(n, c). is_image_name n) zf))) k"
proof (induction zf rule: rev_induct)
  case Nil
  then show ?case by simp
next
  case (snoc e es)
  obtain n c where e: "e = (n, c)" by (cases e)
  let ?zf = "es @ [(n, c)]"
  let ?ms = "filter is_image_name (map fst es)"
  show ?case
  proof (cases "is_image_name n \<and> index_key n = k")
    case True
    then show ?thesis by (simp add: e zf_read_snoc)
  next
    case False
    have "\<forall>m \<in> set ?ms. index_key m = k \<longrightarrow> zf_read ?zf m = zf_read es m"
      using False by (auto simp: zf_read_snoc)
    then have "map_of (rev (map (\<lambda>m. (index_key m, zf_read ?zf m)) ?ms)) k =
               map_of (rev (map (\<lambda>m. (index_key m, zf_read es m)) ?ms)) k"
      by (rule map_of_rev_keyed_cong)
    with False snoc show ?thesis by (auto simp: e map_add_def split: option.splits)
  qed
qed

lemma endswith_suffix: "endswith s suf \<longleftrightarrow> suffix suf s"
proof
  assume "endswith s suf"
  then have d: "drop (length s - length suf) s = suf"
    by (simp add: endswith_def)
  have "suffix (drop (length s - length suf) s) s" by (rule suffix_drop)
  then show "suffix suf s" by (simp only: d)
next
  assume "suffix suf s"
  then obtain ys where "s = ys @ suf" by (auto simp: suffix_def)
  then show "endswith s suf" by (simp add: endswith_def)
qed

lemma is_image_name_suffix:
  "is_image_name name \<longleftrightarrow>
     (suffix ''.jpg'' (lower name) \<or> suffix ''.jpeg'' (lower name) \<or> suffix ''.png'' (lower name)
      \<or> suffix ''.gif'' (lower name) \<or> suffix ''.webp'' (lower name))
     \<and> \<not> suffix ''/'' name"
  by (simp add: is_image_name_def endswith_any_def supported_ext_def endswith_suffix)

lemma split_on_not_Nil: "split_on sep s \<noteq> []"
  by (induction s) (auto split: list.splits)

lemma split_on_no_sep: "sep \<notin> set s \<Longrightarrow> split_on sep s = [s]"
  by (induction s) auto

lemma split_on_last_sep:
  "sep \<notin> set t \<Longrightarrow>
   last (split_on sep (s @ sep # t)) = t \<and> 2 \<le> length (split_on sep (s @ sep # t))"
proof (induction s)
  case Nil
  then show ?case by (simp add: split_on_no_sep)
next
  case (Cons c s)
  then have ih: "last (split_on sep (s @ sep # t)) = t"
    and len: "2 \<le> length (split_on sep (s @ sep # t))" by simp_all
  from len obtain p q ps where ps: "split_on sep (s @ sep # t) = p # q # ps"
    by (auto simp: numeral_2_eq_2 Suc_le_length_iff)
  show ?case using ih by (simp add: ps)
qed

lemma last_split_on:
  "last (split_on sep name) = rev (takeWhile (\<lambda>c. c \<noteq> sep) (rev name))"
proof (cases "sep \<in> set name")
  case False
  then have tw: "takeWhile (\<lambda>c. c \<noteq> sep) (rev name) = rev name"
    by (auto simp: takeWhile_eq_all_conv)
  have sp: "split_on sep name = [name]" using False by (rule split_on_no_sep)
  show ?thesis unfolding tw sp by simp
next
  case True
  then obtain s t where st: "name = s @ sep # t" and t: "sep \<notin> set t"
    by (auto dest: split_list_last)
  have "takeWhile (\<lambda>c. c \<noteq> sep) (rev t @ sep # rev s)
          = rev t @ takeWhile (\<lambda>c. c \<noteq> sep) (sep # rev s)"
    by (rule takeWhile_append2) (use t in auto)
  then have "takeWhile (\<lambda>c. c \<noteq> sep) (rev t @ sep # rev s) = rev t"
    by simp
  then show ?thesis using split_on_last_sep [OF t, of s] by (simp add: st)
qed

lemma index_key_base: "index_key name = lower (rev (takeWhile (\<lambda>c. c \<noteq> CHR ''/'') (rev name)))"
  by (simp add: index_key_def last_split_on)

lemma demo_archive:
  "build_image_index_from_zip
     [(''imgs/'', c1), (''imgs/A1-Front.JPG'', c2), (''notes.txt'', c3), (''pic.jpg.bak'', c4),
      (''old/a1-front.jpg'', c5), (''B2.WebP'', c6), (''x.png/'', c7)]
   = [(''a1-front.jpg'', c5), (''b2.webp'', c6)]"
  by (simp add: build_image_index_from_zip_def namelist_def is_image_name_def endswith_any_def
      supported_ext_def endswith_def index_key_def zf_read_def lower_def lower_char_def
      char_of_nat_bits)

text \<open>
  C6. For every archive, the index built from it holds exactly the entries whose name does
  not end in a slash (the directories) and whose lowercased name ends in \<open>.jpg\<close>, \<open>.jpeg\<close>,
  \<open>.png\<close>, \<open>.gif\<close> or \<open>.webp\<close>, each under its lowercased base name, the part of the name
  after the last slash; where several such entries have the same key, the content of the
  last one in the order of the archive is the one stored. The index is the lookup table of
  the list of those entries read from the back, and no key occurs twice in it. In an
  archive of seven entries, with a directory, a text file, a backup file and two images
  of the same base name, the index holds the later of the two images and the third one.
\<close>

theorem build_image_index_exact:
  "map_of (build_image_index_from_zip zf) =
     map_of (rev (map (\<lambda>(name, content).
                        (lower (rev (takeWhile (\<lambda>c. c \<noteq> CHR ''/'') (rev name))), content))
                   (filter (\<lambda>(name, content).
                       (suffix ''.jpg'' (lower name) \<or> suffix ''.jpeg'' (lower name)
                        \<or> suffix ''.png'' (lower name) \<or> suffix ''.gif'' (lower name)
                        \<or> suffix ''.webp'' (lower name))
                       \<and> \<not> suffix ''/'' name) zf)))
   \<and> distinct (map fst (build_image_index_from_zip zf))
   \<and> build_image_index_from_zip
       [(''imgs/'', c1), (''imgs/A1-Front.JPG'', c2), (''notes.txt'', c3), (''pic.jpg.bak'', c4),
        (''old/a1-front.jpg'', c5), (''B2.WebP'', c6), (''x.png/'', c7)]
     = [(''a1-front.jpg'', c5), (''b2.webp'', c6)]"
proof (intro conjI)
  have "map_of (build_image_index_from_zip zf) =
     map_of (rev (map (\<lambda>(name, content). (index_key name, content))
                   (filter (\<lambda>(name, content). is_image_name name) zf)))"
    by (rule ext) (simp add: build_image_index_from_zip_def namelist_def map_of_index_names
        map_of_read_entries)
  then show "map_of (build_image_index_from_zip zf) =
     map_of (rev (map (\<lambda>(name, content).
                        (lower (rev (takeWhile (\<lambda>c. c \<noteq> CHR ''/'') (rev name))), content))
                   (filter (\<lambda>(name, content).
                       (suffix ''.jpg'' (lower name) \<or> suffix ''.jpeg'' (lower name)
                        \<or> suffix ''.png'' (lower name) \<or> suffix ''.gif'' (lower name)
                        \<or> suffix ''.webp'' (lower name))
                       \<and> \<not> suffix ''/'' name) zf)))"
    by (simp only: index_key_base is_image_name_suffix)
  show "distinct (map fst (build_image_index_from_zip zf))"
    by (simp add: build_image_index_from_zip_def distinct_index_names)
  show "build_image_index_from_zip
       [(''imgs/'', c1), (''imgs/A1-Front.JPG'', c2), (''notes.txt'', c3), (''pic.jpg.bak'', c4),
        (''old/a1-front.jpg'', c5), (''B2.WebP'', c6), (''x.png/'', c7)]
     = [(''a1-front.jpg'', c5), (''b2.webp'', c6)]"
    by (rule demo_archive)
qed

section \<open>Matching images to a row\<close>

lemma take_length_prefix: "take (length k) s = k \<longleftrightarrow> prefix k s"
proof
  assume "take (length k) s = k"
  then have "prefix (take (length k) s) s \<Longrightarrow> prefix k s" by simp
  then show "prefix k s" by (simp add: take_is_prefix)
next
  assume "prefix k s"
  then obtain t where "s = k @ t" by (auto simp: prefix_def)
  then show "take (length k) s = k" by simp
qed

lemma contains_sublist: "contains fname k \<longleftrightarrow> sublist k fname"
proof (induction fname)
  case Nil
  then show ?case by auto
next
  case (Cons c cs)
  have "contains (c # cs) k \<longleftrightarrow> prefix k (c # cs) \<or> contains cs k"
    by (simp only: contains.simps take_length_prefix)
  then show ?case by (simp add: Cons sublist_Cons_right)
qed

lemma if_truthy_set: "set (if_truthy x) = {k. k \<noteq> [] \<and> x = Some k}"
  by (cases x) auto

lemma identity_keys_set:
  "set (identity_keys sku handle) = {k. k \<noteq> [] \<and> (k = sku \<or> handle = Some k)}"
  by (auto simp: identity_keys_def if_truthy_set)

lemma identity_keys_nonempty: "filter (\<lambda>k. k \<noteq> []) (identity_keys sku handle) = identity_keys sku handle"
  by (rule filter_True) (simp add: identity_keys_set)

lemma find_images_set:
  "set (find_images_for_product index keys) =
     {image_dict fname content | fname content.
        (fname, content) \<in> set index \<and> (\<exists>k \<in> set keys. k \<noteq> [] \<and> sublist (lower k) fname)}"
  by (auto simp: find_images_for_product_def Let_def list_ex_iff contains_sublist)

lemma demo_match:
  "map (\<lambda>img. map_of img ''filename'')
     (find_images_for_product
        [(''abc123-front.jpg'', c1), (''other.png'', c2), (''blue-shirt-2.webp'', c3)]
        [''abc123'', ''blue-shirt''])
   = [Some (PStr ''abc123-front.jpg''), Some (PStr ''blue-shirt-2.webp'')]"
  by (simp add: find_images_for_product_def image_dict_def lower_def lower_char_def)

text \<open>
  C8. For every image index and every row, an image of the index is among the images found
  for the row if and only if one of the row's keys, lowercased, occurs in the file name of
  the image as a contiguous block; the keys of a row are those of its sku and its handle
  that are not empty. For the keys abc123 and blue-shirt and the index of
  abc123-front.jpg, other.png and blue-shirt-2.webp the images found are abc123-front.jpg
  and blue-shirt-2.webp.
\<close>

theorem image_matched_iff_key_in_filename:
  "(img \<in> set (find_images_for_product index (identity_keys sku handle)) \<longleftrightarrow>
      (\<exists>fname content. (fname, content) \<in> set index \<and> img = image_dict fname content \<and>
         (\<exists>k \<in> set (identity_keys sku handle). sublist (lower k) fname)))
   \<and> set (identity_keys sku handle) = {k. k \<noteq> [] \<and> (k = sku \<or> handle = Some k)}
   \<and> map (\<lambda>img. map_of img ''filename'')
       (find_images_for_product
          [(''abc123-front.jpg'', c1), (''other.png'', c2), (''blue-shirt-2.webp'', c3)]
          [''abc123'', ''blue-shirt''])
     = [Some (PStr ''abc123-front.jpg''), Some (PStr ''blue-shirt-2.webp'')]"
proof (intro conjI)
  show "img \<in> set (find_images_for_product index (identity_keys sku handle)) \<longleftrightarrow>
      (\<exists>fname content. (fname, content) \<in> set index \<and> img = image_dict fname content \<and>
         (\<exists>k \<in> set (identity_keys sku handle). sublist (lower k) fname))"
    unfolding find_images_set by (auto simp: identity_keys_set)
  show "set (identity_keys sku handle) = {k. k \<noteq> [] \<and> (k = sku \<or> handle = Some k)}"
    by (rule identity_keys_set)
  show "map (\<lambda>img. map_of img ''filename'')
       (find_images_for_product
          [(''abc123-front.jpg'', c1), (''other.png'', c2), (''blue-shirt-2.webp'', c3)]
          [''abc123'', ''blue-shirt''])
     = [Some (PStr ''abc123-front.jpg''), Some (PStr ''blue-shirt-2.webp'')]"
    by (rule demo_match)
qed

section \<open>The limit on the images of a row\<close>

lemma images_found_cases:
  "images_found cfg index sku handle =
     (if max_images_per_product cfg \<noteq> 0
      then take (max_images_per_product cfg) (find_images_for_product index (identity_keys sku handle))
      else find_images_for_product index (identity_keys sku handle))"
proof (cases "index = []")
  case True
  then show ?thesis by (simp add: images_found_def find_images_for_product_def)
next
  case False
  then show ?thesis by (simp add: images_found_def Let_def)
qed

text \<open>
  C1, as the code has it. When the configured maximum is not 0, the images found for a row
  are never more than the maximum. When it is 0 the list is not cut at all: every image
  that matches is kept. In both cases the list is a prefix, in the order of the index, of
  the list of all images that match.
\<close>

theorem images_found_limit:
  "(max_images_per_product cfg \<noteq> 0 \<longrightarrow>
      length (images_found cfg index sku handle) \<le> max_images_per_product cfg)
   \<and> (max_images_per_product cfg = 0 \<longrightarrow>
      images_found cfg index sku handle = find_images_for_product index (identity_keys sku handle))
   \<and> prefix (images_found cfg index sku handle)
        (find_images_for_product index (identity_keys sku handle))"
  by (simp add: images_found_cases take_is_prefix)

theorem images_found_limit_witness:
  "length (images_found (demo_config 1) demo_index ''a1'' None) \<le> 1
   \<and> images_found (demo_config 0) demo_index ''a1'' None
       = find_images_for_product demo_index (identity_keys ''a1'' None)
   \<and> prefix (images_found (demo_config 1) demo_index ''a1'' None)
        (find_images_for_product demo_index (identity_keys ''a1'' None))"
  using images_found_limit [of "demo_config 1" demo_index "''a1''" None]
    images_found_limit [of "demo_config 0" demo_index "''a1''" None]
  by (simp add: demo_config_def)

theorem images_found_zero_counterexample:
  "max_images_per_product (demo_config 0) = 0
   \<and> length (images_found (demo_config 0) demo_index ''a1'' None) = 2
   \<and> \<not> length (images_found (demo_config 0) demo_index ''a1'' None)
         \<le> max_images_per_product (demo_config 0)"
  by (simp add: demo_config_def demo_index_def images_found_def identity_keys_def
      find_images_for_product_def lower_def lower_char_def)

section \<open>The session and its retries\<close>

lemma is_retry_forcelist: "\<not> is_retry remaining s h \<Longrightarrow> s \<notin> set status_forcelist"
  by (simp add: is_retry_def)

lemma world_sent_append:
  "w\<lparr>sent := sent w @ [req]\<rparr>\<lparr>sent := sent (w\<lparr>sent := sent w @ [req]\<rparr>) @ replicate k req\<rparr>
     = w\<lparr>sent := sent w @ replicate (Suc k) req\<rparr>"
  by simp

lemma session_request_first:
  "rem (sent w @ [req]) = Response s h t b \<Longrightarrow> \<not> is_retry remaining s h \<Longrightarrow>
   session_request rem req remaining w = (Inr (s, t, b), w\<lparr>sent := sent w @ [req]\<rparr>)"
  by (subst session_request.simps) (simp add: Let_def)

lemma session_request_cases:
  "\<exists>k. 1 \<le> k \<and> k \<le> Suc remaining
       \<and> snd (session_request rem req remaining w) = w\<lparr>sent := sent w @ replicate k req\<rparr>
       \<and> (\<forall>e. fst (session_request rem req remaining w) = Inl e \<longrightarrow>
              k = Suc remaining \<and> (\<exists>msg. e = OtherError msg))
       \<and> (\<forall>s t b. fst (session_request rem req remaining w) = Inr (s, t, b) \<longrightarrow>
              (\<exists>h. rem (sent w @ replicate k req) = Response s h t b
                    \<and> \<not> is_retry (Suc remaining - k) s h))"
proof (induction remaining arbitrary: w)
  case 0
  show ?case
    by (rule exI [of _ 1], subst (1 2 3) session_request.simps)
       (simp add: Let_def split: http_result.splits)
next
  case (Suc n)
  let ?w' = "w\<lparr>sent := sent w @ [req]\<rparr>"
  have stop: ?case
    if "session_request rem req (Suc n) w = (Inr (s, t, b), ?w')"
      and "rem (sent w @ [req]) = Response s h t b" and "\<not> is_retry (Suc n) s h"
    for s t b h
    using that by (intro exI [of _ 1]) simp
  have again: ?case if eq: "session_request rem req (Suc n) w = session_request rem req n ?w'"
  proof -
    from Suc.IH [of ?w'] obtain k where k: "1 \<le> k" "k \<le> Suc n"
      and s: "snd (session_request rem req n ?w') = ?w'\<lparr>sent := sent ?w' @ replicate k req\<rparr>"
      and l: "\<forall>e. fst (session_request rem req n ?w') = Inl e \<longrightarrow>
              k = Suc n \<and> (\<exists>msg. e = OtherError msg)"
      and r: "\<forall>s t b. fst (session_request rem req n ?w') = Inr (s, t, b) \<longrightarrow>
              (\<exists>h. rem (sent ?w' @ replicate k req) = Response s h t b
                    \<and> \<not> is_retry (Suc n - k) s h)"
      by blast
    show ?thesis
      using k s l r by (intro exI [of _ "Suc k"]) (simp add: eq)
  qed
  show ?case
  proof (cases "rem (sent w @ [req])")
    case (Network_failure msg)
    then have "session_request rem req (Suc n) w = session_request rem req n ?w'"
      by (subst session_request.simps) (simp add: Let_def)
    then show ?thesis by (rule again)
  next
    case (Response s h t b)
    show ?thesis
    proof (cases "is_retry (Suc n) s h")
      case True
      with Response have "session_request rem req (Suc n) w = session_request rem req n ?w'"
        by (subst session_request.simps) (simp add: Let_def)
      then show ?thesis by (rule again)
    next
      case False
      with Response have "session_request rem req (Suc n) w = (Inr (s, t, b), ?w')"
        by (simp add: session_request_first)
      then show ?thesis using Response False by (rule stop)
    qed
  qed
qed

lemma session_request_persistent:
  "\<forall>k \<in> {1..Suc remaining}. session_failure (rem (sent w @ replicate k req)) \<Longrightarrow>
   \<exists>msg. session_request rem req remaining w
           = (Inl (OtherError msg), w\<lparr>sent := sent w @ replicate (Suc remaining) req\<rparr>)"
proof (induction remaining arbitrary: w)
  case 0
  then have "session_failure (rem (sent w @ [req]))" by simp
  then show ?case
    by (subst session_request.simps)
       (simp add: Let_def session_failure_def is_retry_def split: http_result.splits)
next
  case (Suc n)
  let ?w' = "w\<lparr>sent := sent w @ [req]\<rparr>"
  from Suc.prems have first: "session_failure (rem (sent w @ [req]))"
    by (auto dest: bspec [of _ _ 1])
  have "\<forall>k \<in> {1..Suc n}. session_failure (rem (sent ?w' @ replicate k req))"
  proof
    fix k assume "k \<in> {1..Suc n}"
    then have "Suc k \<in> {1..Suc (Suc n)}" by simp
    with Suc.prems have "session_failure (rem (sent w @ replicate (Suc k) req))" by blast
    then show "session_failure (rem (sent ?w' @ replicate k req))" by simp
  qed
  from Suc.IH [OF this] obtain msg where
    ih: "session_request rem req n ?w'
           = (Inl (OtherError msg), ?w'\<lparr>sent := sent ?w' @ replicate (Suc n) req\<rparr>)"
    by blast
  have "session_request rem req (Suc n) w = session_request rem req n ?w'"
    using first
    by (subst session_request.simps)
       (simp add: Let_def session_failure_def is_retry_def split: http_result.splits)
  with ih show ?case by simp
qed

section \<open>One call of the API\<close>

lemma is_shopify_error_iff: "is_shopify_error r \<longleftrightarrow> (\<exists>msg. r = Inl (ShopifyError msg))"
  by (simp add: is_shopify_error_def split: sum.splits exn.splits)

lemma call_result_shopify:
  "call_result m path s t b = Inl (ShopifyError msg) \<longleftrightarrow>
     400 \<le> s \<and> method_name m @ '' '' @ path @ '' -> '' @ str_nat s @ '': '' @ t = msg"
proof (cases "400 \<le> s")
  case True
  then show ?thesis by (simp add: call_result_def)
next
  case False
  then show ?thesis by (simp add: call_result_def split: json_body.splits)
qed

lemma api_call_first:
  "rem (sent w @ [\<lparr>req_method = m, req_path = path, req_body = body\<rparr>]) = Response s h t b \<Longrightarrow>
   \<not> is_retry 5 s h \<Longrightarrow>
   api_call rem m path body w
     = (call_result m path s t b,
        w\<lparr>sent := sent w @ [\<lparr>req_method = m, req_path = path, req_body = body\<rparr>]\<rparr>)"
  by (simp add: api_call_def session_request_first)

lemma api_call_cases:
  "\<exists>k. 1 \<le> k \<and> k \<le> 6
       \<and> snd (api_call rem m path body w)
           = w\<lparr>sent := sent w @ replicate k \<lparr>req_method = m, req_path = path, req_body = body\<rparr>\<rparr>
       \<and> (\<forall>msg. fst (api_call rem m path body w) = Inl (ShopifyError msg) \<longrightarrow>
              (\<exists>s h t b.
                  rem (sent w @ replicate k \<lparr>req_method = m, req_path = path, req_body = body\<rparr>)
                    = Response s h t b
                  \<and> 400 \<le> s \<and> s \<notin> set status_forcelist
                  \<and> msg = method_name m @ '' '' @ path @ '' -> '' @ str_nat s @ '': '' @ t))"
proof -
  define req where "req = \<lparr>req_method = m, req_path = path, req_body = body\<rparr>"
  obtain r w' where sr: "session_request rem req 5 w = (r, w')"
    by (cases "session_request rem req 5 w")
  from session_request_cases [of 5 rem req w] obtain k where k: "1 \<le> k" "k \<le> 6"
    and s: "w' = w\<lparr>sent := sent w @ replicate k req\<rparr>"
    and l: "\<forall>e. r = Inl e \<longrightarrow> (\<exists>msg. e = OtherError msg)"
    and i: "\<forall>s t b. r = Inr (s, t, b) \<longrightarrow>
              (\<exists>h. rem (sent w @ replicate k req) = Response s h t b \<and> \<not> is_retry (6 - k) s h)"
    by (auto simp: sr)
  have "\<exists>s h t b. rem (sent w @ replicate k req) = Response s h t b
                  \<and> 400 \<le> s \<and> s \<notin> set status_forcelist
                  \<and> msg = method_name m @ '' '' @ path @ '' -> '' @ str_nat s @ '': '' @ t"
    if f: "fst (api_call rem m path body w) = Inl (ShopifyError msg)" for msg
  proof (cases r)
    case (Inl e)
    with l obtain msg' where "e = OtherError msg'" by blast
    with f Inl show ?thesis by (simp add: api_call_def req_def [symmetric] sr)
  next
    case (Inr v)
    obtain s t b where v: "v = (s, t, b)" by (cases v)
    from i Inr v obtain h where h: "rem (sent w @ replicate k req) = Response s h t b"
      and n: "\<not> is_retry (6 - k) s h" by blast
    from n have fl: "s \<notin> set status_forcelist" by (rule is_retry_forcelist)
    from f have "call_result m path s t b = Inl (ShopifyError msg)"
      by (simp add: api_call_def req_def [symmetric] sr Inr v)
    then have "400 \<le> s"
      and "msg = method_name m @ '' '' @ path @ '' -> '' @ str_nat s @ '': '' @ t"
      by (simp_all only: call_result_shopify)
    with h fl show ?thesis by blast
  qed
  then have "\<forall>msg. fst (api_call rem m path body w) = Inl (ShopifyError msg) \<longrightarrow>
              (\<exists>s h t b. rem (sent w @ replicate k req) = Response s h t b
                  \<and> 400 \<le> s \<and> s \<notin> set status_forcelist
                  \<and> msg = method_name m @ '' '' @ path @ '' -> '' @ str_nat s @ '': '' @ t)"
    by blast
  moreover have "snd (api_call rem m path body w) = w\<lparr>sent := sent w @ replicate k req\<rparr>"
    by (simp add: api_call_def req_def [symmetric] sr s split: sum.splits prod.splits)
  ultimately show ?thesis using k unfolding req_def by blast
qed

lemma api_call_persistent:
  assumes "\<forall>k \<in> {1..6}. session_failure
             (rem (sent w @ replicate k \<lparr>req_method = m, req_path = path, req_body = body\<rparr>))"
  shows "\<exists>msg. api_call rem m path body w
           = (Inl (OtherError msg),
              w\<lparr>sent := sent w @ replicate 6 \<lparr>req_method = m, req_path = path, req_body = body\<rparr>\<rparr>)"
proof -
  from assms have "\<forall>k \<in> {1..Suc 5}. session_failure
             (rem (sent w @ replicate k \<lparr>req_method = m, req_path = path, req_body = body\<rparr>))"
    by simp
  from session_request_persistent [OF this] obtain msg where
    "session_request rem \<lparr>req_method = m, req_path = path, req_body = body\<rparr> 5 w
       = (Inl (OtherError msg),
          w\<lparr>sent := sent w @ replicate (Suc 5) \<lparr>req_method = m, req_path = path, req_body = body\<rparr>\<rparr>)"
    by blast
  then show ?thesis by (simp add: api_call_def)
qed

section \<open>The retry policy\<close>

lemma retry_call_unfold:
  "retry_call stop attempt f w =
     (case f w of
        (Inl (ShopifyError msg), w') \<Rightarrow>
          if attempt \<ge> stop then (Inl (ShopifyError msg), w') else retry_call stop (Suc attempt) f w'
      | r \<Rightarrow> r)"
  by (subst retry_call.simps) (auto split: prod.splits sum.splits exn.splits)

lemma retry_call_no_failure:
  "\<not> is_shopify_error (fst (f w)) \<Longrightarrow> retry_call stop attempt f w = f w"
  by (subst retry_call_unfold)
     (auto simp: is_shopify_error_iff split: prod.splits sum.splits exn.splits)

lemma retry_call_failure:
  "is_shopify_error (fst (f w)) \<Longrightarrow> attempt < stop \<Longrightarrow>
   retry_call stop attempt f w = retry_call stop (Suc attempt) f (snd (f w))"
  by (subst retry_call_unfold)
     (auto simp: is_shopify_error_iff split: prod.splits sum.splits exn.splits)

lemma retry_call_exhausted:
  "stop \<le> attempt \<Longrightarrow> retry_call stop attempt f w = f w"
  by (subst retry_call_unfold) (auto split: prod.splits sum.splits exn.splits)

lemma retry_call_policy: "follows_retry_policy (retry_call 4 1 f) f w"
proof -
  define a1 where "a1 = f w"
  define a2 where "a2 = f (snd a1)"
  define a3 where "a3 = f (snd a2)"
  define a4 where "a4 = f (snd a3)"
  have c1: "retry_call 4 1 f w = a1" if "\<not> is_shopify_error (fst a1)"
    using that unfolding a1_def by (rule retry_call_no_failure)
  have g1: "retry_call 4 1 f w = retry_call 4 (Suc 1) f (snd a1)" if "is_shopify_error (fst a1)"
    using that unfolding a1_def by (rule retry_call_failure) simp
  have c2: "retry_call 4 (Suc 1) f (snd a1) = a2" if "\<not> is_shopify_error (fst a2)"
    using that unfolding a2_def by (rule retry_call_no_failure)
  have g2: "retry_call 4 (Suc 1) f (snd a1) = retry_call 4 (Suc (Suc 1)) f (snd a2)"
    if "is_shopify_error (fst a2)"
    using that unfolding a2_def by (rule retry_call_failure) simp
  have c3: "retry_call 4 (Suc (Suc 1)) f (snd a2) = a3" if "\<not> is_shopify_error (fst a3)"
    using that unfolding a3_def by (rule retry_call_no_failure)
  have g3: "retry_call 4 (Suc (Suc 1)) f (snd a2) = retry_call 4 (Suc (Suc (Suc 1))) f (snd a3)"
    if "is_shopify_error (fst a3)"
    using that unfolding a3_def by (rule retry_call_failure) simp
  have c4: "retry_call 4 (Suc (Suc (Suc 1))) f (snd a3) = a4"
    unfolding a4_def by (rule retry_call_exhausted) simp
  have "(\<not> is_shopify_error (fst a1) \<longrightarrow> retry_call 4 1 f w = a1)
       \<and> (is_shopify_error (fst a1) \<and> \<not> is_shopify_error (fst a2) \<longrightarrow> retry_call 4 1 f w = a2)
       \<and> (is_shopify_error (fst a1) \<and> is_shopify_error (fst a2) \<and> \<not> is_shopify_error (fst a3)
            \<longrightarrow> retry_call 4 1 f w = a3)
       \<and> (is_shopify_error (fst a1) \<and> is_shopify_error (fst a2) \<and> is_shopify_error (fst a3)
            \<longrightarrow> retry_call 4 1 f w = a4)"
    using c1 g1 c2 g2 c3 g3 c4 by metis
  then show ?thesis
    unfolding follows_retry_policy_def Let_def a1_def a2_def a3_def a4_def .
qed

lemma create_product_policy:
  "follows_retry_policy (create_product rem payload)
     (api_post rem ''/products.json'' (PDict [(''product'', PDict payload)])) w"
proof -
  have eq: "create_product rem payload =
        retry_call 4 1 (api_post rem ''/products.json'' (PDict [(''product'', PDict payload)]))"
    by (rule ext) (simp add: create_product_def)
  show ?thesis unfolding eq by (rule retry_call_policy)
qed

lemma attach_image_policy:
  "follows_retry_policy (attach_image rem product_id img)
     (api_post rem (''/products/'' @ str_id product_id @ ''/images.json'')
        (PDict [(''image'', PDict img)])) w"
proof -
  have eq: "attach_image rem product_id img =
        retry_call 4 1 (api_post rem (''/products/'' @ str_id product_id @ ''/images.json'')
                          (PDict [(''image'', PDict img)]))"
    by (rule ext) (simp add: attach_image_def)
  show ?thesis unfolding eq by (rule retry_call_policy)
qed

lemma api_post_shopify_error:
  assumes "is_shopify_error (fst (api_post rem path body w))"
  shows "\<exists>k s h t b. 1 \<le> k \<and> k \<le> 6
           \<and> rem (sent w @ replicate k \<lparr>req_method = POST, req_path = path, req_body = body\<rparr>)
               = Response s h t b
           \<and> 400 \<le> s \<and> s \<notin> set status_forcelist
           \<and> api_post rem path body w
               = (Inl (ShopifyError (''POST '' @ path @ '' -> '' @ str_nat s @ '': '' @ t)),
                  w\<lparr>sent := sent w @ replicate k
                                \<lparr>req_method = POST, req_path = path, req_body = body\<rparr>\<rparr>)"
proof -
  define req where "req = \<lparr>req_method = POST, req_path = path, req_body = body\<rparr>"
  from assms obtain msg where f: "fst (api_call rem POST path body w) = Inl (ShopifyError msg)"
    by (auto simp: is_shopify_error_iff api_post_def)
  from api_call_cases [of rem POST path body w] obtain k where k: "1 \<le> k" "k \<le> 6"
    and s: "snd (api_call rem POST path body w) = w\<lparr>sent := sent w @ replicate k req\<rparr>"
    and e: "\<forall>msg. fst (api_call rem POST path body w) = Inl (ShopifyError msg) \<longrightarrow>
              (\<exists>s h t b. rem (sent w @ replicate k req) = Response s h t b
                  \<and> 400 \<le> s \<and> s \<notin> set status_forcelist
                  \<and> msg = method_name POST @ '' '' @ path @ '' -> '' @ str_nat s @ '': '' @ t)"
    unfolding req_def by blast
  from e f obtain s' h t b where r: "rem (sent w @ replicate k req) = Response s' h t b"
    and c: "400 \<le> s'" "s' \<notin> set status_forcelist"
    and m: "msg = method_name POST @ '' '' @ path @ '' -> '' @ str_nat s' @ '': '' @ t"
    by blast
  have "api_post rem path body w
          = (fst (api_call rem POST path body w), snd (api_call rem POST path body w))"
    by (simp add: api_post_def)
  then have "api_post rem path body w
          = (Inl (ShopifyError (''POST '' @ path @ '' -> '' @ str_nat s' @ '': '' @ t)),
             w\<lparr>sent := sent w @ replicate k req\<rparr>)"
    by (simp add: f s m method_name_def)
  with k r c show ?thesis unfolding req_def by blast
qed

lemma api_post_first:
  assumes "rem (sent w @ [\<lparr>req_method = POST, req_path = path, req_body = body\<rparr>]) = Response s h t b"
    and "400 \<le> s" and "\<not> is_retry 5 s h"
  shows "api_post rem path body w
           = (Inl (ShopifyError (''POST '' @ path @ '' -> '' @ str_nat s @ '': '' @ t)),
              w\<lparr>sent := sent w @ [\<lparr>req_method = POST, req_path = path, req_body = body\<rparr>]\<rparr>)"
proof -
  have "api_post rem path body w
          = (call_result POST path s t b,
             w\<lparr>sent := sent w @ [\<lparr>req_method = POST, req_path = path, req_body = body\<rparr>]\<rparr>)"
    unfolding api_post_def using assms(1,3) by (rule api_call_first)
  with assms(2) show ?thesis by (simp add: call_result_def method_name_def)
qed

lemma api_post_persistent:
  assumes "\<forall>k \<in> {1..6}. session_failure
             (rem (sent w @ replicate k \<lparr>req_method = POST, req_path = path, req_body = body\<rparr>))"
  shows "\<exists>msg. api_post rem path body w
             = (Inl (OtherError msg),
                w\<lparr>sent := sent w @ replicate 6
                              \<lparr>req_method = POST, req_path = path, req_body = body\<rparr>\<rparr>)
           \<and> retry_call 4 1 (api_post rem path body) w = api_post rem path body w"
proof -
  from api_call_persistent [OF assms] obtain msg where
    m: "api_post rem path body w
          = (Inl (OtherError msg),
             w\<lparr>sent := sent w @ replicate 6
                           \<lparr>req_method = POST, req_path = path, req_body = body\<rparr>\<rparr>)"
    unfolding api_post_def by blast
  then have "\<not> is_shopify_error (fst (api_post rem path body w))"
    by (simp add: is_shopify_error_def)
  then have "retry_call 4 1 (api_post rem path body) w = api_post rem path body w"
    by (rule retry_call_no_failure)
  with m show ?thesis by blast
qed

text \<open>
  C3, as the code has it. For every create-product and every attach-image call, an attempt
  is one call of \<open>api_post\<close>, and the call ends with the first attempt that does not raise
  \<open>ShopifyError\<close>: after three attempts that raise it and a fourth that returns, the call
  returns that result after exactly four attempts; after four attempts that raise it, the
  \<open>ShopifyError\<close> of the fourth is raised and there is no fifth attempt. An attempt raises
  \<open>ShopifyError\<close> only when the session hands back a response with a status of 400 or more,
  which is never a status of the forcelist 429, 500, 502, 503, 504, since the session sends
  the request again by itself on those; a response with a status of 400 or more that the
  session does not retry is a \<open>ShopifyError\<close>. When the six sendings of the session all meet
  a network failure or a status of the forcelist, the session raises an exception that is
  no \<open>ShopifyError\<close>, and the retry policy makes no further attempt: the call ends with
  that exception after the first attempt.
\<close>

theorem retry_policy:
  "follows_retry_policy (create_product rem payload)
     (api_post rem ''/products.json'' (PDict [(''product'', PDict payload)])) w
   \<and> follows_retry_policy (attach_image rem product_id img)
       (api_post rem (''/products/'' @ str_id product_id @ ''/images.json'')
          (PDict [(''image'', PDict img)])) w
   \<and> (is_shopify_error (fst (api_post rem path body w)) \<longrightarrow>
        (\<exists>k s h t b. 1 \<le> k \<and> k \<le> 6
           \<and> rem (sent w @ replicate k \<lparr>req_method = POST, req_path = path, req_body = body\<rparr>)
               = Response s h t b
           \<and> 400 \<le> s \<and> s \<notin> set status_forcelist
           \<and> api_post rem path body w
               = (Inl (ShopifyError (''POST '' @ path @ '' -> '' @ str_nat s @ '': '' @ t)),
                  w\<lparr>sent := sent w @ replicate k
                                \<lparr>req_method = POST, req_path = path, req_body = body\<rparr>\<rparr>)))
   \<and> (rem (sent w @ [\<lparr>req_method = POST, req_path = path, req_body = body\<rparr>])
         = Response s' h' t' b' \<and> 400 \<le> s' \<and> \<not> is_retry 5 s' h' \<longrightarrow>
       api_post rem path body w
         = (Inl (ShopifyError (''POST '' @ path @ '' -> '' @ str_nat s' @ '': '' @ t')),
            w\<lparr>sent := sent w @ [\<lparr>req_method = POST, req_path = path, req_body = body\<rparr>]\<rparr>))
   \<and> ((\<forall>k \<in> {1..6}. session_failure
           (rem (sent w @ replicate k \<lparr>req_method = POST, req_path = path, req_body = body\<rparr>)))
        \<longrightarrow>
       (\<exists>msg. api_post rem path body w
                 = (Inl (OtherError msg),
                    w\<lparr>sent := sent w @ replicate 6
                                  \<lparr>req_method = POST, req_path = path, req_body = body\<rparr>\<rparr>)
               \<and> retry_call 4 1 (api_post rem path body) w = api_post rem path body w))"
proof (intro conjI impI)
  show "follows_retry_policy (create_product rem payload)
     (api_post rem ''/products.json'' (PDict [(''product'', PDict payload)])) w"
    by (rule create_product_policy)
  show "follows_retry_policy (attach_image rem product_id img)
       (api_post rem (''/products/'' @ str_id product_id @ ''/images.json'')
          (PDict [(''image'', PDict img)])) w"
    by (rule attach_image_policy)
next
  assume "is_shopify_error (fst (api_post rem path body w))"
  then show "\<exists>k s h t b. 1 \<le> k \<and> k \<le> 6
           \<and> rem (sent w @ replicate k \<lparr>req_method = POST, req_path = path, req_body = body\<rparr>)
               = Response s h t b
           \<and> 400 \<le> s \<and> s \<notin> set status_forcelist
           \<and> api_post rem path body w
               = (Inl (ShopifyError (''POST '' @ path @ '' -> '' @ str_nat s @ '': '' @ t)),
                  w\<lparr>sent := sent w @ replicate k
                                \<lparr>req_method = POST, req_path = path, req_body = body\<rparr>\<rparr>)"
    by (rule api_post_shopify_error)
next
  assume "rem (sent w @ [\<lparr>req_method = POST, req_path = path, req_body = body\<rparr>])
         = Response s' h' t' b' \<and> 400 \<le> s' \<and> \<not> is_retry 5 s' h'"
  then show "api_post rem path body w
         = (Inl (ShopifyError (''POST '' @ path @ '' -> '' @ str_nat s' @ '': '' @ t')),
            w\<lparr>sent := sent w @ [\<lparr>req_method = POST, req_path = path, req_body = body\<rparr>]\<rparr>)"
    using api_post_first [of rem w path body s' h' t' b'] by blast
next
  assume "\<forall>k \<in> {1..6}. session_failure
           (rem (sent w @ replicate k \<lparr>req_method = POST, req_path = path, req_body = body\<rparr>))"
  then show "\<exists>msg. api_post rem path body w
                 = (Inl (OtherError msg),
                    w\<lparr>sent := sent w @ replicate 6
                                  \<lparr>req_method = POST, req_path = path, req_body = body\<rparr>\<rparr>)
               \<and> retry_call 4 1 (api_post rem path body) w = api_post rem path body w"
    by (rule api_post_persistent)
qed

lemma replicate_small:
  "replicate 2 x = [x, x]" "replicate 4 x = [x, x, x, x]" "replicate 6 x = [x, x, x, x, x, x]"
  by (simp_all add: numeral_eq_Suc)

theorem retry_policy_witness:
  "create_product (flaky_remote (Response 404 False ''nope'' Not_json) 3) [] empty_world
     = (Inr (Json_product (Some 7) (Some ''mug'')),
        empty_world\<lparr>sent := replicate 4 (create_request [])\<rparr>)
   \<and> create_product (flaky_remote (Response 422 False ''bad'' Not_json) 4) [] empty_world
     = (Inl (ShopifyError ''POST /products.json -> 422: bad''),
        empty_world\<lparr>sent := replicate 4 (create_request [])\<rparr>)
   \<and> attach_image (flaky_remote (Response 404 False ''nope'' Not_json) 1) (Some 7) [] empty_world
     = (Inr (Json_product (Some 7) (Some ''mug'')),
        empty_world\<lparr>sent := replicate 2 (attach_request (Some 7) [])\<rparr>)"
proof -
  note a = retry_policy [where rem = "flaky_remote (Response 404 False ''nope'' Not_json) 3"
      and payload = "[]" and w = empty_world, THEN conjunct1]
  note b = retry_policy [where rem = "flaky_remote (Response 422 False ''bad'' Not_json) 4"
      and payload = "[]" and w = empty_world, THEN conjunct1]
  note c = retry_policy [where rem = "flaky_remote (Response 404 False ''nope'' Not_json) 1"
      and product_id = "Some 7" and img = "[]" and w = empty_world,
      THEN conjunct2, THEN conjunct1]
  from a b c show ?thesis
    by (simp add: follows_retry_policy_def Let_def api_post_def api_call_def
        session_request.simps flaky_remote_def is_retry_def status_forcelist_def
        retry_after_status_codes_def call_result_def is_shopify_error_def method_name_def
        create_request_def attach_request_def empty_world_def char_of_nat_bits
        replicate_small)
qed

theorem session_failure_counterexample:
  "create_product (flaky_remote (Response 500 False ''boom'' Not_json) 18) [] empty_world
     = (Inl (OtherError ''RetryError''),
        empty_world\<lparr>sent := replicate 6 (create_request [])\<rparr>)
   \<and> fst (api_post (flaky_remote (Response 500 False ''boom'' Not_json) 18) ''/products.json''
            (PDict [(''product'', PDict [])])
            (empty_world\<lparr>sent := replicate 6 (create_request [])\<rparr>))
     = Inl (OtherError ''RetryError'')
   \<and> fst (api_post (flaky_remote (Response 500 False ''boom'' Not_json) 18) ''/products.json''
            (PDict [(''product'', PDict [])])
            (empty_world\<lparr>sent := replicate 12 (create_request [])\<rparr>))
     = Inl (OtherError ''RetryError'')
   \<and> fst (api_post (flaky_remote (Response 500 False ''boom'' Not_json) 18) ''/products.json''
            (PDict [(''product'', PDict [])])
            (empty_world\<lparr>sent := replicate 18 (create_request [])\<rparr>))
     = Inr (Json_product (Some 7) (Some ''mug''))
   \<and> create_product (flaky_remote (Network_failure ''timeout'') 6) [] empty_world
     = (Inl (OtherError ''timeout''),
        empty_world\<lparr>sent := replicate 6 (create_request [])\<rparr>)
   \<and> flaky_remote (Network_failure ''timeout'') 6 (replicate 7 (create_request []))
     = Response 201 False ''{}'' (Json_product (Some 7) (Some ''mug''))"
  by (simp add: create_product_def retry_call.simps api_post_def api_call_def
      session_request.simps Let_def flaky_remote_def is_retry_def status_forcelist_def
      retry_after_status_codes_def call_result_def create_request_def empty_world_def
      replicate_small)

section \<open>Requests sent while a row is processed\<close>

lemma world_sent_twice:
  "w\<lparr>sent := sent w @ replicate j req\<rparr>
      \<lparr>sent := sent (w\<lparr>sent := sent w @ replicate j req\<rparr>) @ replicate k req\<rparr>
     = w\<lparr>sent := sent w @ replicate (j + k) req\<rparr>"
  by (simp add: replicate_add)

lemma api_call_world:
  "\<exists>k. 1 \<le> k \<and> k \<le> 6
       \<and> snd (api_call rem m path body w)
           = w\<lparr>sent := sent w @ replicate k \<lparr>req_method = m, req_path = path, req_body = body\<rparr>\<rparr>"
  using api_call_cases [of rem m path body w] by blast

lemma retry_call_world:
  fixes f :: "world \<Rightarrow> (exn + json_body) \<times> world"
  assumes step: "\<And>w. \<exists>k. 1 \<le> k \<and> snd (f w) = w\<lparr>sent := sent w @ replicate k req\<rparr>"
  shows "\<exists>k. 1 \<le> k \<and> snd (retry_call stop attempt f w) = w\<lparr>sent := sent w @ replicate k req\<rparr>"
proof (induction "stop - attempt" arbitrary: attempt w)
  case 0
  then have "retry_call stop attempt f w = f w" by (simp add: retry_call_exhausted)
  with step [of w] show ?case by simp
next
  case (Suc n)
  show ?case
  proof (cases "is_shopify_error (fst (f w))")
    case False
    then have "retry_call stop attempt f w = f w" by (rule retry_call_no_failure)
    with step [of w] show ?thesis by simp
  next
    case True
    from Suc.hyps(2) have lt: "attempt < stop" by simp
    have eq: "retry_call stop attempt f w = retry_call stop (Suc attempt) f (snd (f w))"
      using True lt by (rule retry_call_failure)
    from step [of w] obtain j where j: "1 \<le> j"
      and sj: "snd (f w) = w\<lparr>sent := sent w @ replicate j req\<rparr>" by blast
    from Suc.hyps(2) have "n = stop - Suc attempt" by simp
    from Suc.hyps(1) [OF this, of "snd (f w)"] obtain k where
      sk: "snd (retry_call stop (Suc attempt) f (snd (f w)))
             = (snd (f w))\<lparr>sent := sent (snd (f w)) @ replicate k req\<rparr>" by blast
    have "snd (retry_call stop attempt f w) = w\<lparr>sent := sent w @ replicate (j + k) req\<rparr>"
      unfolding eq sk unfolding sj by (rule world_sent_twice)
    moreover from j have "1 \<le> j + k" by simp
    ultimately show ?thesis by blast
  qed
qed

lemma create_product_world:
  "\<exists>k. 1 \<le> k \<and> snd (create_product rem payload w)
                    = w\<lparr>sent := sent w @ replicate k (create_request payload)\<rparr>"
  unfolding create_product_def create_request_def api_post_def [abs_def]
  by (rule retry_call_world) (use api_call_world in blast)

lemma attach_image_world:
  "\<exists>k. 1 \<le> k \<and> snd (attach_image rem product_id img w)
                    = w\<lparr>sent := sent w @ replicate k (attach_request product_id img)\<rparr>"
  unfolding attach_image_def attach_request_def api_post_def [abs_def]
  by (rule retry_call_world) (use api_call_world in blast)

lemma create_product_sent:
  "\<exists>rest. sent (snd (create_product rem payload w)) = sent w @ create_request payload # rest"
proof -
  from create_product_world [of rem payload w] obtain k where k: "1 \<le> k"
    and eq: "snd (create_product rem payload w)
               = w\<lparr>sent := sent w @ replicate k (create_request payload)\<rparr>" by blast
  from k obtain j where "k = Suc j" by (cases k) auto
  then show ?thesis by (simp add: eq)
qed

lemma attach_image_sent:
  "prefix (sent w) (sent (snd (attach_image rem product_id img w)))"
proof -
  from attach_image_world [of rem product_id img w] obtain k where
    "snd (attach_image rem product_id img w)
       = w\<lparr>sent := sent w @ replicate k (attach_request product_id img)\<rparr>" by blast
  then show ?thesis by simp
qed

lemma update_product_metafields_world:
  "\<exists>k. snd (update_product_metafields rem product_id seo_title seo_desc w)
         = w\<lparr>sent := sent w @ replicate k
               \<lparr>req_method = PUT, req_path = ''/products/'' @ str_id product_id @ ''.json'',
                  req_body = PDict [(''product'', PDict (seo_update seo_title seo_desc))]\<rparr>\<rparr>"
proof (cases "seo_update seo_title seo_desc \<noteq> []")
  case True
  let ?path = "''/products/'' @ str_id product_id @ ''.json''"
  let ?body = "PDict [(''product'', PDict (seo_update seo_title seo_desc))]"
  from api_call_world [of rem PUT ?path ?body w] obtain k where
    k: "snd (api_call rem PUT ?path ?body w)
          = w\<lparr>sent := sent w @ replicate k \<lparr>req_method = PUT, req_path = ?path, req_body = ?body\<rparr>\<rparr>"
    by blast
  have "snd (update_product_metafields rem product_id seo_title seo_desc w)
          = snd (api_call rem PUT ?path ?body w)"
    using True
    by (simp add: update_product_metafields_def api_put_def split: prod.splits sum.splits)
  with k show ?thesis by (intro exI [of _ k]) simp
next
  case False
  then show ?thesis by (intro exI [of _ 0]) (simp add: update_product_metafields_def)
qed

lemma update_product_metafields_sent:
  "prefix (sent w) (sent (snd (update_product_metafields rem product_id seo_title seo_desc w)))"
proof -
  from update_product_metafields_world [of rem product_id seo_title seo_desc w] obtain k where
    "snd (update_product_metafields rem product_id seo_title seo_desc w)
         = w\<lparr>sent := sent w @ replicate k
               \<lparr>req_method = PUT, req_path = ''/products/'' @ str_id product_id @ ''.json'',
                  req_body = PDict [(''product'', PDict (seo_update seo_title seo_desc))]\<rparr>\<rparr>"
    by blast
  then show ?thesis by simp
qed

lemma attach_images_sent:
  "prefix (sent w) (sent (snd (attach_images rem i title sku product_id imgs attached w)))"
proof (induction imgs arbitrary: attached w)
  case Nil
  then show ?case by simp
next
  case (Cons img imgs)
  obtain res w' where a: "attach_image rem product_id img w = (res, w')"
    by (cases "attach_image rem product_id img w")
  have p: "prefix (sent w) (sent w')"
    using attach_image_sent [of w rem product_id img] by (simp add: a)
  show ?case
  proof (cases res)
    case (Inr v)
    have "prefix (sent w') (sent (snd (attach_images rem i title sku product_id imgs (Suc attached) w')))"
      by (rule Cons.IH)
    with p have "prefix (sent w) (sent (snd (attach_images rem i title sku product_id imgs (Suc attached) w')))"
      by (rule prefix_order.trans)
    then show ?thesis by (simp add: a Inr)
  next
    case (Inl e)
    show ?thesis
    proof (cases e)
      case (ShopifyError msg)
      have "prefix (sent (append_log (image_error_log i title sku product_id msg img) w'))
              (sent (snd (attach_images rem i title sku product_id imgs attached
                 (append_log (image_error_log i title sku product_id msg img) w'))))"
        by (rule Cons.IH)
      then have "prefix (sent w')
              (sent (snd (attach_images rem i title sku product_id imgs attached
                 (append_log (image_error_log i title sku product_id msg img) w'))))"
        by (simp add: append_log_def)
      with p have "prefix (sent w)
              (sent (snd (attach_images rem i title sku product_id imgs attached
                 (append_log (image_error_log i title sku product_id msg img) w'))))"
        by (rule prefix_order.trans)
      then show ?thesis by (simp add: a Inl ShopifyError)
    next
      case (OtherError msg)
      with p show ?thesis by (simp add: a Inl)
    qed
  qed
qed

lemma after_create_sent:
  "prefix (sent w) (sent (snd (after_create rem i title sku seo_title seo_desc images res w)))"
proof (cases res)
  case (Json_product product_id handle)
  obtain r w' where u: "update_product_metafields rem product_id seo_title seo_desc w = (r, w')"
    by (cases "update_product_metafields rem product_id seo_title seo_desc w")
  have p: "prefix (sent w) (sent w')"
    using update_product_metafields_sent [of w rem product_id seo_title seo_desc] by (simp add: u)
  have att: "prefix (sent w) (sent (snd (attach_images rem i title sku product_id images 0 w2)))"
    if "sent w2 = sent w'" for w2
  proof -
    have "prefix (sent w') (sent (snd (attach_images rem i title sku product_id images 0 w2)))"
      using attach_images_sent [of w2 rem i title sku product_id images 0] by (simp add: that)
    with p show ?thesis by (rule prefix_order.trans)
  qed
  have fin: "prefix (sent w)
       (sent (snd (case attach_images rem i title sku product_id images 0 w2 of
                     (Inl e, w3) \<Rightarrow> (Some e, w3)
                   | (Inr attached, w3) \<Rightarrow>
                       (None, append_log (created_log i title sku product_id handle attached) w3))))"
    if "sent w2 = sent w'" for w2
    using att [OF that]
    by (cases "attach_images rem i title sku product_id images 0 w2")
       (simp add: append_log_def split: sum.splits)
  show ?thesis
  proof (cases r)
    case (Inr v)
    then show ?thesis using fin [of w'] by (simp add: after_create_def Json_product u)
  next
    case (Inl e)
    show ?thesis
    proof (cases e)
      case (ShopifyError msg)
      then show ?thesis
        using fin [of "w'\<lparr>infos := infos w' @ [''SEO non aggiornato per '' @ title @ '': '' @ msg]\<rparr>"]
        by (simp add: after_create_def Json_product u Inl)
    next
      case (OtherError msg)
      then show ?thesis using p by (simp add: after_create_def Json_product u Inl)
    qed
  qed
qed (simp_all add: after_create_def)

lemma process_row_sends_create:
  assumes "row_title r \<noteq> []"
  shows "prefix (sent w @ [create_request (product_payload slug cfg r)])
           (sent (snd (process_row rem slug cfg image_index (i, r) w)))"
proof -
  obtain res w' where c: "create_product rem (product_payload slug cfg r) w = (res, w')"
    by (cases "create_product rem (product_payload slug cfg r) w")
  obtain rest where "sent w' = sent w @ create_request (product_payload slug cfg r) # rest"
    using create_product_sent [of rem "product_payload slug cfg r" w] by (auto simp: c)
  then have p: "prefix (sent w @ [create_request (product_payload slug cfg r)]) (sent w')"
    by (simp add: prefix_def)
  show ?thesis
  proof (cases res)
    case (Inl e)
    with p assms show ?thesis
      by (cases e) (simp_all add: process_row_def Let_def c append_log_def)
  next
    case (Inr v)
    have "prefix (sent w') (sent (snd (after_create rem i (row_title r) (row_sku r)
            (row_seo_title r) (row_seo_desc r)
            (images_found cfg image_index (row_sku r) (row_handle slug r)) v w')))"
      by (rule after_create_sent)
    with p have "prefix (sent w @ [create_request (product_payload slug cfg r)])
        (sent (snd (after_create rem i (row_title r) (row_sku r)
            (row_seo_title r) (row_seo_desc r)
            (images_found cfg image_index (row_sku r) (row_handle slug r)) v w')))"
      by (rule prefix_order.trans)
    with assms show ?thesis by (simp add: process_row_def Let_def c Inr)
  qed
qed



lemma demo_title_mug: "row_title (demo_row ''Mug'' ''a1'') = ''Mug''"
  by (simp add: row_title_def demo_row_def row_get_def strip_def strip_chars_def is_space_def)


section \<open>Rows without a title\<close>



section \<open>The payload of the create-product call\<close>

lemma map_of_payload_tags:
  "map_of (product_payload slug cfg r) ''tags'' = Some (tags_str (row_tags r))"
  by (simp add: product_payload_def Let_def update_conv' split: list.splits)

lemma join_not_empty: "ps \<noteq> [] \<Longrightarrow> hd ps \<noteq> [] \<Longrightarrow> join sep ps \<noteq> []"
  by (cases "(sep, ps)" rule: join.cases) auto

lemma tag_list_hd: "tag_list tags \<noteq> [] \<Longrightarrow> hd (tag_list tags) \<noteq> []"
proof -
  assume "tag_list tags \<noteq> []"
  then have "hd (tag_list tags) \<in> set (tag_list tags)" by (rule hd_in_set)
  then show ?thesis by (simp add: tag_list_def)
qed

lemma demo_payload:
  "product_payload (slugify demo_fold) (demo_config 10) (demo_row ''Mug'' ''a1'')
     = [(''title'', PStr ''Mug''), (''body_html'', PStr ''''), (''vendor'', PStr ''Brand''),
        (''product_type'', PStr ''Altro''), (''status'', PStr ''active''), (''tags'', PNone),
        (''variants'',
         PList [PDict [(''sku'', PStr ''a1''), (''price'', PStr ''0.0''),
                       (''inventory_policy'', PStr ''deny''),
                       (''inventory_management'', PStr ''shopify''),
                       (''inventory_quantity'', PInt 0), (''requires_shipping'', PBool True),
                       (''taxable'', PBool True)]]),
        (''handle'', PStr ''mug'')]"
  by code_simp

lemma demo_tags:
  "tag_list (row_tags (demo_row ''Mug'' ''a1'')) = []
   \<and> tag_list (row_tags ((demo_row ''Mug'' ''a1'')(''Tag'' \<mapsto> Text '' red, ,blue ''))) = [''red'', ''blue'']"
  by code_simp

text \<open>
  C2, as the code has it. The payload of every row has the key \<open>tags\<close>. For a row whose
  normalized tag list is empty its value is \<open>None\<close>, which is sent as a JSON null: the key
  is not left out. For every other row the value is the tags joined by a comma and a space,
  which is not the empty string. This payload is the body of the create-product request
  that is sent for a row with a title.
\<close>

theorem empty_tags_sent_as_null:
  "(tag_list (row_tags r) = [] \<longrightarrow>
      map_of (product_payload slug cfg r) ''tags'' = Some PNone)
   \<and> (tag_list (row_tags r) \<noteq> [] \<longrightarrow>
        map_of (product_payload slug cfg r) ''tags''
          = Some (PStr (join '', '' (tag_list (row_tags r))))
        \<and> join '', '' (tag_list (row_tags r)) \<noteq> [])
   \<and> (row_title r \<noteq> [] \<longrightarrow>
        prefix (sent w @ [create_request (product_payload slug cfg r)])
          (sent (snd (process_row rem slug cfg image_index (i, r) w))))"
proof (intro conjI impI)
  assume "tag_list (row_tags r) = []"
  then show "map_of (product_payload slug cfg r) ''tags'' = Some PNone"
    by (simp add: map_of_payload_tags tags_str_def)
next
  assume "tag_list (row_tags r) \<noteq> []"
  then show "map_of (product_payload slug cfg r) ''tags''
          = Some (PStr (join '', '' (tag_list (row_tags r))))"
    by (simp add: map_of_payload_tags tags_str_def)
next
  assume t: "tag_list (row_tags r) \<noteq> []"
  then have "hd (tag_list (row_tags r)) \<noteq> []" by (rule tag_list_hd)
  with t show "join '', '' (tag_list (row_tags r)) \<noteq> []" by (rule join_not_empty)
next
  assume "row_title r \<noteq> []"
  then show "prefix (sent w @ [create_request (product_payload slug cfg r)])
          (sent (snd (process_row rem slug cfg image_index (i, r) w)))"
    by (rule process_row_sends_create)
qed

theorem empty_tags_sent_as_null_witness:
  "map_of (product_payload (slugify demo_fold) (demo_config 10) (demo_row ''Mug'' ''a1'')) ''tags''
     = Some PNone
   \<and> map_of (product_payload (slugify demo_fold) (demo_config 10)
               ((demo_row ''Mug'' ''a1'')(''Tag'' \<mapsto> Text '' red, ,blue ''))) ''tags''
     = Some (PStr ''red, blue'')
   \<and> prefix [create_request (product_payload (slugify demo_fold) (demo_config 10)
                                (demo_row ''Mug'' ''a1''))]
        (sent (snd (process_row (flaky_remote (Response 404 False ''nope'' Not_json) 0)
                      (slugify demo_fold) (demo_config 10) demo_index
                      (0, demo_row ''Mug'' ''a1'') empty_world)))"
  using empty_tags_sent_as_null [of "demo_row ''Mug'' ''a1''" "slugify demo_fold" "demo_config 10"
      empty_world "flaky_remote (Response 404 False ''nope'' Not_json) 0" demo_index 0]
    empty_tags_sent_as_null [of "(demo_row ''Mug'' ''a1'')(''Tag'' \<mapsto> Text '' red, ,blue '')"
      "slugify demo_fold" "demo_config 10"]
  by (simp add: demo_tags demo_title_mug empty_world_def)

theorem tags_key_present_counterexample:
  "tag_list (row_tags (demo_row ''Mug'' ''a1'')) = []
   \<and> map_of (product_payload (slugify demo_fold) (demo_config 10) (demo_row ''Mug'' ''a1'')) ''tags''
     = Some PNone
   \<and> process_row (flaky_remote (Response 404 False ''nope'' Not_json) 0) (slugify demo_fold)
       (demo_config 10) [] (0, demo_row ''Mug'' ''a1'') empty_world
     = (None,
        \<lparr>sent = [\<lparr>req_method = POST, req_path = ''/products.json'',
                   req_body = PDict [(''product'', PDict
                     [(''title'', PStr ''Mug''), (''body_html'', PStr ''''),
                      (''vendor'', PStr ''Brand''), (''product_type'', PStr ''Altro''),
                      (''status'', PStr ''active''), (''tags'', PNone),
                      (''variants'',
                       PList [PDict [(''sku'', PStr ''a1''), (''price'', PStr ''0.0''),
                                     (''inventory_policy'', PStr ''deny''),
                                     (''inventory_management'', PStr ''shopify''),
                                     (''inventory_quantity'', PInt 0),
                                     (''requires_shipping'', PBool True),
                                     (''taxable'', PBool True)]]),
                      (''handle'', PStr ''mug'')])]\<rparr>],
         logs = [created_log 0 ''Mug'' ''a1'' (Some 7) (Some ''mug'') 0], infos = []\<rparr>)"
  by code_simp

section \<open>A title whose slug is empty\<close>







section \<open>A row whose product is not created\<close>









section \<open>The images of a row\<close>






lemma attach_world_logs: "logs (attach_world rem product_id imgs w) = logs w"
proof (induction imgs arbitrary: w)
  case Nil
  then show ?case by simp
next
  case (Cons img imgs)
  from attach_image_world [of rem product_id img w] obtain k where
    "snd (attach_image rem product_id img w)
       = w\<lparr>sent := sent w @ replicate k (attach_request product_id img)\<rparr>" by blast
  then have "logs (snd (attach_image rem product_id img w)) = logs w" by simp
  with Cons.IH [of "snd (attach_image rem product_id img w)"] show ?case by simp
qed















end
